theory Spec2Isabelle
  imports Complex_Main "HOL-Library.AList" "HOL-Library.Char_ord" "HOL-Library.List_Lexorder"
begin

section \<open>Data model of the UI prototype\<close>

text \<open>
  The interfaces of the UI's type module. A JavaScript \<open>number\<close> that holds a count or a
  configuration value is a \<open>real\<close>; the one place where the code can meet \<open>NaN\<close> (the
  conversion of a form input) has its own type below. Turn numbers index arrays and are
  natural numbers, as in every call of the turn generator. Strings are byte lists; the
  few non-ASCII characters of the sample data are written as their UTF-8 bytes. The field
  \<open>text\<close> of a post is \<open>postText\<close> here.
\<close>

type_synonym number = real

datatype run_status = Running | Completed | Failed

record Run =
  runId :: string
  createdAt :: string
  totalTurns :: number
  totalAgents :: number
  status :: run_status

record Agent =
  handle :: string
  name :: string
  bio :: string
  generatedBio :: string
  followers :: number
  following :: number
  postsCount :: number

record Post =
  uri :: string
  authorDisplayName :: string
  authorHandle :: string
  postText :: string
  bookmarkCount :: number
  likeCount :: number
  quoteCount :: number
  replyCount :: number
  repostCount :: number
  createdAt :: string

record Feed =
  feedId :: string
  runId :: string
  turnNumber :: nat
  agentHandle :: string
  postUris :: "string list"
  createdAt :: string

datatype action_type = Like | Comment | Follow

record AgentAction =
  actionId :: string
  agentHandle :: string
  postUri :: "string option"
  userId :: "string option"
  type :: action_type
  createdAt :: string

text \<open>
  A \<open>Record<string, T>\<close> is an association list: \<open>obj[k] = v\<close> is \<open>AList.update k v\<close>
  (an existing key keeps its place, a new key goes last), \<open>obj[k]\<close> is \<open>map_of obj k\<close>
  and \<open>Object.keys\<close> is \<open>map fst\<close>. Only the set and the number of keys are used below,
  not their order.
\<close>

type_synonym 'v Record = "(string \<times> 'v) list"

record Turn =
  turnNumber :: nat
  agentFeeds :: "Feed Record"
  agentActions :: "AgentAction list Record"

record RunConfig =
  numAgents :: number
  numTurns :: number

definition Object_keys :: "'v Record \<Rightarrow> string list" where
  "Object_keys obj = map fst obj"

section \<open>Sample data\<close>

definition DUMMY_RUNS :: "Run list" where
  \<open>DUMMY_RUNS = [
    \<lparr>Run.runId = ''run_2025-01-15T10:30:00'',
     Run.createdAt = ''2025-01-15T10:30:00'',
     totalTurns = 10,
     totalAgents = 3,
     status = Completed\<rparr>,
    \<lparr>Run.runId = ''run_2025-01-15T14:45:00'',
     Run.createdAt = ''2025-01-15T14:45:00'',
     totalTurns = 10,
     totalAgents = 4,
     status = Running\<rparr>,
    \<lparr>Run.runId = ''run_2025-01-16T09:15:00'',
     Run.createdAt = ''2025-01-16T09:15:00'',
     totalTurns = 5,
     totalAgents = 3,
     status = Running\<rparr>,
    \<lparr>Run.runId = ''run_2025-01-17T08:20:00'',
     Run.createdAt = ''2025-01-17T08:20:00'',
     totalTurns = 15,
     totalAgents = 4,
     status = Running\<rparr>,
    \<lparr>Run.runId = ''run_2025-01-18T11:00:00'',
     Run.createdAt = ''2025-01-18T11:00:00'',
     totalTurns = 20,
     totalAgents = 4,
     status = Running\<rparr>
  ]\<close>

definition DUMMY_AGENTS :: "Agent list" where
  \<open>DUMMY_AGENTS = [
    \<lparr>handle = ''@alice.bsky.social'',
     name = ''Alice Chen'',
     bio = ''AI researcher and educator. Building the future of human-AI collaboration.'',
     generatedBio = ''Alice is a passionate AI researcher who focuses on making artificial intelligence more accessible and understandable. She regularly shares insights about machine learning, human-computer interaction, and the ethical implications of AI technology.'',
     followers = 12450,
     following = 892,
     postsCount = 3421\<rparr>,
    \<lparr>handle = ''@bob.tech'',
     name = ''Bob Martinez'',
     bio = (''Software engineer | Open source contributor | Coffee enthusiast '' @ [CHR 0xE2, CHR 0x98, CHR 0x95]),
     generatedBio = ''Bob is an experienced software engineer with a strong focus on open-source contributions. He loves sharing technical knowledge, code reviews, and occasionally posts about his coffee adventures.'',
     followers = 8765,
     following = 1203,
     postsCount = 2105\<rparr>,
    \<lparr>handle = ''@charlie.dev'',
     name = ''Charlie Kim'',
     bio = ''Building products that matter. Former startup founder.'',
     generatedBio = ''Charlie is a product-focused engineer with a background in startup entrepreneurship. He shares lessons learned, product development insights, and thoughts on building sustainable businesses.'',
     followers = 15432,
     following = 567,
     postsCount = 4521\<rparr>,
    \<lparr>handle = ''@diana.design'',
     name = ''Diana Park'',
     bio = ''UX Designer | Accessibility advocate | Design systems enthusiast'',
     generatedBio = ''Diana is a UX designer passionate about creating inclusive and accessible digital experiences. She frequently shares design system patterns, accessibility best practices, and thoughts on how design impacts user behavior.'',
     followers = 9876,
     following = 1456,
     postsCount = 1876\<rparr>,
    \<lparr>handle = ''@edward.data'',
     name = ''Edward Wu'',
     bio = (''Data scientist | ML engineer | Stats nerd '' @ [CHR 0xF0, CHR 0x9F, CHR 0x93, CHR 0x8A]),
     generatedBio = ''Edward is a data scientist who loves diving deep into datasets and building machine learning models. He shares analysis insights, statistical findings, and practical ML techniques with the community.'',
     followers = 11234,
     following = 789,
     postsCount = 3210\<rparr>,
    \<lparr>handle = ''@fiona.frontend'',
     name = ''Fiona Lee'',
     bio = ''Frontend engineer | React enthusiast | CSS wizard'',
     generatedBio = ''Fiona is a frontend engineer specializing in React and modern CSS. She enjoys building performant web applications and sharing tips on component architecture, performance optimization, and creative CSS techniques.'',
     followers = 6543,
     following = 923,
     postsCount = 1567\<rparr>,
    \<lparr>handle = ''@george.backend'',
     name = ''George Thompson'',
     bio = ''Backend engineer | Distributed systems | Database optimization'',
     generatedBio = ''George is a backend engineer with expertise in distributed systems and database design. He shares insights on system architecture, scalability challenges, and database performance tuning strategies.'',
     followers = 14567,
     following = 612,
     postsCount = 2890\<rparr>,
    \<lparr>handle = ''@hannah.ai'',
     name = ''Hannah Rodriguez'',
     bio = ''AI product manager | ML adoption | Ethical AI'',
     generatedBio = ''Hannah is a product manager focused on bringing AI products to market. She writes about ML adoption strategies, ethical considerations in AI development, and bridging the gap between technical teams and business stakeholders.'',
     followers = 8765,
     following = 1345,
     postsCount = 2103\<rparr>
  ]\<close>

definition DUMMY_POSTS :: "Post list" where
  \<open>DUMMY_POSTS = [
    \<lparr>uri = ''at://did:plc:example1/post1'',
     authorDisplayName = ''Alice Chen'',
     authorHandle = ''@alice.bsky.social'',
     postText = ''Just finished reading an amazing paper on transformer architectures. The attention mechanism continues to surprise me with its elegance!'',
     bookmarkCount = 23,
     likeCount = 145,
     quoteCount = 8,
     replyCount = 12,
     repostCount = 34,
     Post.createdAt = ''2025-01-15T10:00:00''\<rparr>,
    \<lparr>uri = ''at://did:plc:example2/post2'',
     authorDisplayName = ''Bob Martinez'',
     authorHandle = ''@bob.tech'',
     postText = (''Found a beautiful bug today that only shows up on Tuesdays during leap years. Classic. '' @ [CHR 0xF0, CHR 0x9F, CHR 0x90, CHR 0x9B]),
     bookmarkCount = 5,
     likeCount = 67,
     quoteCount = 2,
     replyCount = 8,
     repostCount = 12,
     Post.createdAt = ''2025-01-15T11:30:00''\<rparr>,
    \<lparr>uri = ''at://did:plc:example3/post3'',
     authorDisplayName = ''Charlie Kim'',
     authorHandle = ''@charlie.dev'',
     postText = ''The best product decisions are often the ones that seem obvious in retrospect but were controversial at the time.'',
     bookmarkCount = 89,
     likeCount = 234,
     quoteCount = 15,
     replyCount = 45,
     repostCount = 78,
     Post.createdAt = ''2025-01-15T13:00:00''\<rparr>,
    \<lparr>uri = ''at://did:plc:example4/post4'',
     authorDisplayName = ''Diana Park'',
     authorHandle = ''@diana.design'',
     postText = (''Accessibility isn't optional. Every design decision impacts real people with real needs. Let's build for everyone. '' @ [CHR 0xE2, CHR 0x99, CHR 0xBF]),
     bookmarkCount = 156,
     likeCount = 423,
     quoteCount = 28,
     replyCount = 67,
     repostCount = 112,
     Post.createdAt = ''2025-01-15T14:15:00''\<rparr>,
    \<lparr>uri = ''at://did:plc:example5/post5'',
     authorDisplayName = ''Edward Wu'',
     authorHandle = ''@edward.data'',
     postText = ''Just visualized a dataset with 10M rows and the patterns that emerged were fascinating. Sometimes you need to zoom out to see the forest for the trees.'',
     bookmarkCount = 34,
     likeCount = 198,
     quoteCount = 12,
     replyCount = 23,
     repostCount = 45,
     Post.createdAt = ''2025-01-15T15:30:00''\<rparr>,
    \<lparr>uri = ''at://did:plc:example6/post6'',
     authorDisplayName = ''Fiona Lee'',
     authorHandle = ''@fiona.frontend'',
     postText = ''CSS Grid + Flexbox = unstoppable. Just built a responsive layout that would have taken me hours before. Modern CSS is magical.'',
     bookmarkCount = 78,
     likeCount = 312,
     quoteCount = 19,
     replyCount = 34,
     repostCount = 89,
     Post.createdAt = ''2025-01-15T16:00:00''\<rparr>,
    \<lparr>uri = ''at://did:plc:example7/post7'',
     authorDisplayName = ''George Thompson'',
     authorHandle = ''@george.backend'',
     postText = ''Database indexing is like a library catalog system. Without it, you're searching through every book. With it, you go straight to the shelf.'',
     bookmarkCount = 112,
     likeCount = 445,
     quoteCount = 31,
     replyCount = 56,
     repostCount = 123,
     Post.createdAt = ''2025-01-15T17:20:00''\<rparr>,
    \<lparr>uri = ''at://did:plc:example8/post8'',
     authorDisplayName = ''Hannah Rodriguez'',
     authorHandle = ''@hannah.ai'',
     postText = (''The hardest part of building AI products isn't the technology'' @ [CHR 0xE2, CHR 0x80, CHR 0x94] @ ''it's understanding user needs and ensuring the AI actually solves real problems.''),
     bookmarkCount = 67,
     likeCount = 289,
     quoteCount = 22,
     replyCount = 41,
     repostCount = 98,
     Post.createdAt = ''2025-01-15T18:45:00''\<rparr>,
    \<lparr>uri = ''at://did:plc:example9/post9'',
     authorDisplayName = ''Alice Chen'',
     authorHandle = ''@alice.bsky.social'',
     postText = ''Reading through code reviews and learning so much. The best teams learn from each other. Always ask "why?" not just "what?"'',
     bookmarkCount = 45,
     likeCount = 178,
     quoteCount = 9,
     replyCount = 19,
     repostCount = 42,
     Post.createdAt = ''2025-01-16T09:00:00''\<rparr>,
    \<lparr>uri = ''at://did:plc:example10/post10'',
     authorDisplayName = ''Bob Martinez'',
     authorHandle = ''@bob.tech'',
     postText = (''Refactored a legacy component today. It's like archaeology'' @ [CHR 0xE2, CHR 0x80, CHR 0x94] @ ''carefully removing layers to discover the original intent. Satisfying when it all clicks.''),
     bookmarkCount = 28,
     likeCount = 134,
     quoteCount = 6,
     replyCount = 15,
     repostCount = 29,
     Post.createdAt = ''2025-01-16T10:30:00''\<rparr>
  ]\<close>

section \<open>Host functions and JavaScript primitives\<close>

text \<open>
  The clock and the date formatter belong to the host. \<open>Date_now h run_id turn_no idx site\<close>
  is the reading of \<open>Date.now()\<close> taken at call site \<open>site\<close> while the turn generator works
  on the agent at position \<open>idx\<close>; \<open>toISOString\<close> formats a valid time in milliseconds;
  \<open>Number\<close> converts the key of a turn table to a number.
\<close>

record host =
  Date_now :: "string \<Rightarrow> nat \<Rightarrow> nat \<Rightarrow> nat \<Rightarrow> nat"
  toISOString :: "nat \<Rightarrow> string"
  Number :: "string \<Rightarrow> number"

text \<open>
  The one exception of the code. A \<open>Date\<close> holds a time of at most 8.64e15 milliseconds;
  \<open>new Date(ms)\<close> with a later time is an invalid date, and \<open>toISOString\<close> of an invalid
  date throws a \<open>RangeError\<close>. A computation that may throw returns \<open>Inl\<close> of the error or
  \<open>Inr\<close> of its value, and \<open>bind_error\<close> runs the rest of a computation on the value.
\<close>

datatype error = RangeError

definition bind_error :: "error + 'a \<Rightarrow> ('a \<Rightarrow> error + 'b) \<Rightarrow> error + 'b" where
  "bind_error m k = (case m of Inl e \<Rightarrow> Inl e | Inr v \<Rightarrow> k v)"

definition new_Date_toISOString :: "host \<Rightarrow> nat \<Rightarrow> error + string" where
  "new_Date_toISOString h ms =
     (if 8640000000000000 < ms then Inl RangeError else Inr (toISOString h ms))"

text \<open>
  \<open>xs.forEach(f)\<close> on a state that \<open>f\<close> updates, stopping at the first exception, and an
  object literal whose property values are computed in order.
\<close>

fun forEach :: "('s \<Rightarrow> 'a \<Rightarrow> error + 's) \<Rightarrow> 's \<Rightarrow> 'a list \<Rightarrow> error + 's" where
  "forEach f s [] = Inr s"
| "forEach f s (x # xs) = bind_error (f s x) (\<lambda>s'. forEach f s' xs)"

fun objectOf :: "(string \<times> (error + 'v)) list \<Rightarrow> error + (string \<times> 'v) list" where
  "objectOf [] = Inr []"
| "objectOf (km # kms) =
     bind_error (snd km) (\<lambda>v. bind_error (objectOf kms) (\<lambda>kvs. Inr ((fst km, v) # kvs)))"

text \<open>The decimal form of a natural number, as a template string prints it.\<close>

fun string_of_nat :: "nat \<Rightarrow> string" where
  "string_of_nat n =
     (if n < 10 then [''0123456789'' ! n]
      else string_of_nat (n div 10) @ [''0123456789'' ! (n mod 10)])"

declare string_of_nat.simps [simp del]

text \<open>
  Index arithmetic: an index is a natural number or \<open>NaN\<close> (\<open>None\<close>). The remainder by
  zero is \<open>NaN\<close>, \<open>NaN\<close> plus a number is \<open>NaN\<close>, and reading an array at \<open>NaN\<close> or
  past its end yields \<open>undefined\<close> (\<open>None\<close>).
\<close>

definition js_rem :: "nat option \<Rightarrow> nat \<Rightarrow> nat option" where
  "js_rem a b = (case a of None \<Rightarrow> None | Some x \<Rightarrow> if b = 0 then None else Some (x mod b))"

definition js_add :: "nat option \<Rightarrow> nat \<Rightarrow> nat option" where
  "js_add a k = (case a of None \<Rightarrow> None | Some x \<Rightarrow> Some (x + k))"

definition js_at :: "'a list \<Rightarrow> nat option \<Rightarrow> 'a option" where
  "js_at xs i = (case i of None \<Rightarrow> None | Some j \<Rightarrow> if j < length xs then Some (xs ! j) else None)"

text \<open>\<open>.filter(Boolean)\<close> on a list of optional strings drops \<open>undefined\<close> and the empty string.\<close>

fun filter_Boolean :: "string option list \<Rightarrow> string list" where
  "filter_Boolean [] = []"
| "filter_Boolean (None # us) = filter_Boolean us"
| "filter_Boolean (Some s # us) = (if s = [] then filter_Boolean us else s # filter_Boolean us)"

section \<open>The turn generator\<close>

text \<open>
  The rotation of the roster. With an empty roster the start offset is \<open>NaN\<close> in
  JavaScript, but the loop body never runs; the list is empty here as well.
\<close>

definition selectAgents :: "nat \<Rightarrow> Agent list \<Rightarrow> Agent list" where
  "selectAgents turn_no agents =
     (let startOffset = turn_no mod length agents;
          numAgents = min (length agents) 5
      in map (\<lambda>i. agents ! ((startOffset + i) mod length agents)) [0..<numAgents])"

definition feedPostUris :: "nat \<Rightarrow> Agent list \<Rightarrow> nat \<Rightarrow> Post list \<Rightarrow> string list" where
  "feedPostUris turn_no selectedAgents idx allPosts =
     (let postStartIdx = js_rem (Some (turn_no * length selectedAgents + idx)) (length allPosts)
      in filter_Boolean
           [map_option uri (js_at allPosts (js_rem postStartIdx (length allPosts))),
            map_option uri (js_at allPosts (js_rem (js_add postStartIdx 1) (length allPosts))),
            map_option uri (js_at allPosts (js_rem (js_add postStartIdx 2) (length allPosts)))])"

text \<open>
  The feed object of one agent. Its \<open>createdAt\<close> is the only property whose computation
  can throw.
\<close>

definition agentFeed ::
  "host \<Rightarrow> string \<Rightarrow> nat \<Rightarrow> Agent list \<Rightarrow> Post list \<Rightarrow> Agent \<Rightarrow> nat \<Rightarrow> error + Feed" where
  "agentFeed h run_id turn_no selectedAgents allPosts agent idx =
     bind_error (new_Date_toISOString h (Date_now h run_id turn_no idx 0 + turn_no * 60000))
       (\<lambda>created.
          Inr \<lparr>feedId = ''feed_'' @ run_id @ ''_turn'' @ string_of_nat turn_no @ ''_'' @ handle agent,
               Feed.runId = run_id,
               Feed.turnNumber = turn_no,
               Feed.agentHandle = handle agent,
               postUris = feedPostUris turn_no selectedAgents idx allPosts,
               Feed.createdAt = created\<rparr>)"

text \<open>The actions of one agent: first the like, if any, then the follow, if any.\<close>

definition likeActions ::
  "host \<Rightarrow> string \<Rightarrow> nat \<Rightarrow> string list \<Rightarrow> Agent \<Rightarrow> nat \<Rightarrow> error + AgentAction list" where
  "likeActions h run_id turn_no uris agent idx =
     (if turn_no mod 2 = 0 \<and> idx mod 2 = 0 \<and> length uris > 0
      then bind_error
             (new_Date_toISOString h (Date_now h run_id turn_no idx 1 + turn_no * 60000 + 5000))
             (\<lambda>created.
                Inr [\<lparr>actionId = ''action_'' @ run_id @ ''_turn'' @ string_of_nat turn_no
                                   @ ''_'' @ handle agent @ ''_1'',
                      agentHandle = handle agent,
                      postUri = js_at uris (Some 0),
                      userId = None,
                      type = Like,
                      createdAt = created\<rparr>])
      else Inr [])"

definition followActions ::
  "host \<Rightarrow> string \<Rightarrow> nat \<Rightarrow> Agent list \<Rightarrow> Agent \<Rightarrow> nat \<Rightarrow> error + AgentAction list" where
  "followActions h run_id turn_no selectedAgents agent idx =
     (if turn_no mod 3 = 0 \<and> idx = 0 \<and> length selectedAgents > 1
      then bind_error
             (new_Date_toISOString h (Date_now h run_id turn_no idx 2 + turn_no * 60000 + 7000))
             (\<lambda>created.
                Inr [\<lparr>actionId = ''action_'' @ run_id @ ''_turn'' @ string_of_nat turn_no
                                   @ ''_'' @ handle agent @ ''_2'',
                      agentHandle = handle agent,
                      postUri = None,
                      userId = Some (handle (selectedAgents ! 1)),
                      type = Follow,
                      createdAt = created\<rparr>])
      else Inr [])"

definition agentActionList ::
  "host \<Rightarrow> string \<Rightarrow> nat \<Rightarrow> Agent list \<Rightarrow> Post list \<Rightarrow> Agent \<Rightarrow> nat \<Rightarrow>
   error + AgentAction list" where
  "agentActionList h run_id turn_no selectedAgents allPosts agent idx =
     (let uris = feedPostUris turn_no selectedAgents idx allPosts
      in bind_error (likeActions h run_id turn_no uris agent idx)
           (\<lambda>likes.
              bind_error (followActions h run_id turn_no selectedAgents agent idx)
                (\<lambda>follows. Inr (likes @ follows))))"

text \<open>The body of \<open>selectedAgents.forEach\<close>, on the two tables it fills.\<close>

definition forEachAgent ::
  "host \<Rightarrow> string \<Rightarrow> nat \<Rightarrow> Agent list \<Rightarrow> Post list \<Rightarrow>
   Feed Record \<times> AgentAction list Record \<Rightarrow> Agent \<times> nat \<Rightarrow>
   error + Feed Record \<times> AgentAction list Record" where
  "forEachAgent h run_id turn_no selectedAgents allPosts tables x =
     (case (tables, x) of ((feeds, actions), (agent, idx)) \<Rightarrow>
        bind_error (agentFeed h run_id turn_no selectedAgents allPosts agent idx)
          (\<lambda>feed.
             bind_error (agentActionList h run_id turn_no selectedAgents allPosts agent idx)
               (\<lambda>acts.
                  Inr (AList.update (handle agent) feed feeds,
                       AList.update (handle agent) acts actions))))"

definition createTurnForRun ::
  "host \<Rightarrow> string \<Rightarrow> nat \<Rightarrow> Agent list \<Rightarrow> Post list \<Rightarrow> error + Turn" where
  "createTurnForRun h run_id turn_no agents allPosts =
     (let selectedAgents = selectAgents turn_no agents
      in bind_error
           (forEach (forEachAgent h run_id turn_no selectedAgents allPosts) ([], [])
              (zip selectedAgents [0..<length selectedAgents]))
           (\<lambda>tables.
              Inr \<lparr>turnNumber = turn_no, agentFeeds = fst tables, agentActions = snd tables\<rparr>))"

definition getPostByUri :: "string \<Rightarrow> Post option" where
  "getPostByUri u = find (\<lambda>p. uri p = u) DUMMY_POSTS"

definition getAgentByHandle :: "string \<Rightarrow> Agent option" where
  "getAgentByHandle a = find (\<lambda>x. handle x = a) DUMMY_AGENTS"

definition DEFAULT_CONFIG :: RunConfig where
  "DEFAULT_CONFIG = \<lparr>numAgents = 5, numTurns = 10\<rparr>"

text \<open>
  The recorded turns of the sample runs, generated when the module is loaded;
  \<open>slice(0, n)\<close> is \<open>take n\<close>. An exception in one of the calls leaves no table at all.
\<close>

definition DUMMY_TURNS :: "host \<Rightarrow> error + Turn Record Record" where
  "DUMMY_TURNS h = objectOf [
    (''run_2025-01-15T10:30:00'', objectOf
      [
       (''0'', createTurnForRun h ''run_2025-01-15T10:30:00'' 0 (take 3 DUMMY_AGENTS) DUMMY_POSTS),
       (''1'', createTurnForRun h ''run_2025-01-15T10:30:00'' 1 (take 3 DUMMY_AGENTS) DUMMY_POSTS),
       (''2'', createTurnForRun h ''run_2025-01-15T10:30:00'' 2 (take 3 DUMMY_AGENTS) DUMMY_POSTS),
       (''3'', createTurnForRun h ''run_2025-01-15T10:30:00'' 3 (take 3 DUMMY_AGENTS) DUMMY_POSTS),
       (''4'', createTurnForRun h ''run_2025-01-15T10:30:00'' 4 (take 3 DUMMY_AGENTS) DUMMY_POSTS),
       (''5'', createTurnForRun h ''run_2025-01-15T10:30:00'' 5 (take 3 DUMMY_AGENTS) DUMMY_POSTS),
       (''6'', createTurnForRun h ''run_2025-01-15T10:30:00'' 6 (take 3 DUMMY_AGENTS) DUMMY_POSTS),
       (''7'', createTurnForRun h ''run_2025-01-15T10:30:00'' 7 (take 3 DUMMY_AGENTS) DUMMY_POSTS),
       (''8'', createTurnForRun h ''run_2025-01-15T10:30:00'' 8 (take 3 DUMMY_AGENTS) DUMMY_POSTS),
       (''9'', createTurnForRun h ''run_2025-01-15T10:30:00'' 9 (take 3 DUMMY_AGENTS) DUMMY_POSTS)
      ]),
    (''run_2025-01-15T14:45:00'', objectOf
      [
       (''0'', createTurnForRun h ''run_2025-01-15T14:45:00'' 0 (take 4 DUMMY_AGENTS) DUMMY_POSTS),
       (''1'', createTurnForRun h ''run_2025-01-15T14:45:00'' 1 (take 4 DUMMY_AGENTS) DUMMY_POSTS),
       (''2'', createTurnForRun h ''run_2025-01-15T14:45:00'' 2 (take 4 DUMMY_AGENTS) DUMMY_POSTS)
      ]),
    (''run_2025-01-16T09:15:00'', objectOf
      [
       (''0'', createTurnForRun h ''run_2025-01-16T09:15:00'' 0 (take 3 DUMMY_AGENTS) DUMMY_POSTS),
       (''1'', createTurnForRun h ''run_2025-01-16T09:15:00'' 1 (take 3 DUMMY_AGENTS) DUMMY_POSTS),
       (''2'', createTurnForRun h ''run_2025-01-16T09:15:00'' 2 (take 3 DUMMY_AGENTS) DUMMY_POSTS),
       (''3'', createTurnForRun h ''run_2025-01-16T09:15:00'' 3 (take 3 DUMMY_AGENTS) DUMMY_POSTS),
       (''4'', createTurnForRun h ''run_2025-01-16T09:15:00'' 4 (take 3 DUMMY_AGENTS) DUMMY_POSTS)
      ]),
    (''run_2025-01-17T08:20:00'', objectOf
      [
       (''0'', createTurnForRun h ''run_2025-01-17T08:20:00'' 0 (take 4 DUMMY_AGENTS) DUMMY_POSTS),
       (''1'', createTurnForRun h ''run_2025-01-17T08:20:00'' 1 (take 4 DUMMY_AGENTS) DUMMY_POSTS),
       (''2'', createTurnForRun h ''run_2025-01-17T08:20:00'' 2 (take 4 DUMMY_AGENTS) DUMMY_POSTS),
       (''3'', createTurnForRun h ''run_2025-01-17T08:20:00'' 3 (take 4 DUMMY_AGENTS) DUMMY_POSTS),
       (''4'', createTurnForRun h ''run_2025-01-17T08:20:00'' 4 (take 4 DUMMY_AGENTS) DUMMY_POSTS),
       (''5'', createTurnForRun h ''run_2025-01-17T08:20:00'' 5 (take 4 DUMMY_AGENTS) DUMMY_POSTS),
       (''6'', createTurnForRun h ''run_2025-01-17T08:20:00'' 6 (take 4 DUMMY_AGENTS) DUMMY_POSTS),
       (''7'', createTurnForRun h ''run_2025-01-17T08:20:00'' 7 (take 4 DUMMY_AGENTS) DUMMY_POSTS)
      ]),
    (''run_2025-01-18T11:00:00'', objectOf
      [
       (''0'', createTurnForRun h ''run_2025-01-18T11:00:00'' 0 (take 4 DUMMY_AGENTS) DUMMY_POSTS),
       (''1'', createTurnForRun h ''run_2025-01-18T11:00:00'' 1 (take 4 DUMMY_AGENTS) DUMMY_POSTS),
       (''2'', createTurnForRun h ''run_2025-01-18T11:00:00'' 2 (take 4 DUMMY_AGENTS) DUMMY_POSTS),
       (''3'', createTurnForRun h ''run_2025-01-18T11:00:00'' 3 (take 4 DUMMY_AGENTS) DUMMY_POSTS),
       (''4'', createTurnForRun h ''run_2025-01-18T11:00:00'' 4 (take 4 DUMMY_AGENTS) DUMMY_POSTS)
      ])
  ]"

section \<open>Runs assembled from generated turns\<close>

text \<open>
  A run is the list of turns generated for turn numbers \<open>0, \<dots>, n - 1\<close> with one roster
  and one corpus, as the sample runs are; an exception in one call leaves no run.
  \<open>shownUris\<close> collects, in turn order, the post URIs of the feeds stored under one agent's
  handle; \<open>followsOf\<close> collects the recorded follow actions of one actor that target one
  handle.
\<close>

fun sequence_error :: "(error + 'a) list \<Rightarrow> error + 'a list" where
  "sequence_error [] = Inr []"
| "sequence_error (m # ms) =
     bind_error m (\<lambda>v. bind_error (sequence_error ms) (\<lambda>vs. Inr (v # vs)))"

definition runTurns ::
  "host \<Rightarrow> string \<Rightarrow> nat \<Rightarrow> Agent list \<Rightarrow> Post list \<Rightarrow> error + Turn list" where
  "runTurns h run_id n agents allPosts =
     sequence_error (map (\<lambda>turn_no. createTurnForRun h run_id turn_no agents allPosts) [0..<n])"

definition shownUris :: "Turn list \<Rightarrow> string \<Rightarrow> string list" where
  "shownUris turns agent =
     concat (List.map_filter (\<lambda>turn. map_option postUris (map_of (agentFeeds turn) agent)) turns)"

definition followsOf :: "Turn list \<Rightarrow> string \<Rightarrow> string \<Rightarrow> AgentAction list" where
  "followsOf turns actor target =
     filter (\<lambda>a. type a = Follow \<and> userId a = Some target)
       (concat (List.map_filter (\<lambda>turn. map_of (agentActions turn) actor) turns))"

text \<open>
  The two properties of a chronological feed, in the words of the specification: the
  posts of the feed, looked up in the corpus, are ordered newest first by their creation
  time (ISO timestamps of one format compare as strings), and none is authored by the
  feed's agent.
\<close>

definition feedPosts :: "Post list \<Rightarrow> Feed \<Rightarrow> Post list" where
  "feedPosts allPosts f = List.map_filter (\<lambda>u. find (\<lambda>p. uri p = u) allPosts) (postUris f)"

definition newest_first :: "Post list \<Rightarrow> bool" where
  "newest_first ps = sorted_wrt (\<lambda>p q. Post.createdAt q \<le> Post.createdAt p) ps"

definition no_own_posts :: "Feed \<Rightarrow> Post list \<Rightarrow> bool" where
  "no_own_posts f ps = list_all (\<lambda>p. authorHandle p \<noteq> Feed.agentHandle f) ps"

section \<open>The page: run list, status and configuration\<close>

datatype selected_turn = TurnNumber nat | Summary

record page_state =
  runs :: "Run list"
  selectedRunId :: "string option"
  selectedTurn :: "selected_turn option"
  runConfigs :: "RunConfig Record"
  newRunTurns :: "Turn Record Record"

text \<open>
  The page exists once the sample data module has loaded; \<open>dummy_turns\<close> below is the
  loaded value of \<open>DUMMY_TURNS\<close>. The initial run list is every sample run with its status
  computed from its turn table.
\<close>

definition initial_runs :: "Turn Record Record \<Rightarrow> Run list" where
  "initial_runs dummy_turns =
     map (\<lambda>run. run\<lparr>status :=
            (let turns = (case map_of dummy_turns (Run.runId run) of
                            Some ts \<Rightarrow> ts | None \<Rightarrow> []);
                 completed = length (Object_keys turns)
             in if totalTurns run \<le> real completed then Completed else Running)\<rparr>)
       DUMMY_RUNS"

definition initial_page :: "Turn Record Record \<Rightarrow> page_state" where
  "initial_page dummy_turns =
     \<lparr>runs = initial_runs dummy_turns, selectedRunId = None, selectedTurn = None,
      runConfigs = [], newRunTurns = []\<rparr>"

text \<open>
  The turn table of a run: the table of new runs takes precedence over the sample table,
  and a run in neither has no turns.
\<close>

definition turnsOf :: "Turn Record Record \<Rightarrow> page_state \<Rightarrow> string \<Rightarrow> Turn Record" where
  "turnsOf dummy_turns s run_id =
     (case map_of (newRunTurns s) run_id of
        Some ts \<Rightarrow> ts
      | None \<Rightarrow> (case map_of dummy_turns run_id of Some ts \<Rightarrow> ts | None \<Rightarrow> []))"

text \<open>
  The turns that have data. A null or empty run id is falsy and yields no turns. The keys
  of a turn table are decimal turn numbers, which \<open>Number\<close> converts and the comparator
  orders ascending.
\<close>

definition getAvailableTurns ::
  "host \<Rightarrow> Turn Record Record \<Rightarrow> page_state \<Rightarrow> string option \<Rightarrow> number list" where
  "getAvailableTurns h dummy_turns s run_id =
     (case run_id of
        None \<Rightarrow> []
      | Some rid \<Rightarrow>
          if rid = [] then []
          else
            (let turns = turnsOf dummy_turns s rid
             in sort (map (Number h) (Object_keys turns))))"

definition getCompletedTurnsCount ::
  "host \<Rightarrow> Turn Record Record \<Rightarrow> page_state \<Rightarrow> string option \<Rightarrow> nat" where
  "getCompletedTurnsCount h dummy_turns s run_id = length (getAvailableTurns h dummy_turns s run_id)"

definition getRunStatus ::
  "host \<Rightarrow> Turn Record Record \<Rightarrow> page_state \<Rightarrow> Run option \<Rightarrow> run_status" where
  "getRunStatus h dummy_turns s run =
     (case run of
        None \<Rightarrow> Running
      | Some r \<Rightarrow>
          (let completed = getCompletedTurnsCount h dummy_turns s (Some (Run.runId r))
           in if totalTurns r \<le> real completed then Completed else Running))"

definition runsWithStatus :: "host \<Rightarrow> Turn Record Record \<Rightarrow> page_state \<Rightarrow> Run list" where
  "runsWithStatus h dummy_turns s =
     map (\<lambda>run. run\<lparr>status := getRunStatus h dummy_turns s (Some run)\<rparr>) (runs s)"

text \<open>The handlers of the page; \<open>now\<close> is the time at which the submit handler runs.\<close>

definition handleConfigSubmit :: "host \<Rightarrow> nat \<Rightarrow> RunConfig \<Rightarrow> page_state \<Rightarrow> page_state" where
  "handleConfigSubmit h now config s =
     (let newRunId = ''run_'' @ toISOString h now;
          newRun = \<lparr>Run.runId = newRunId,
                    Run.createdAt = toISOString h now,
                    totalTurns = numTurns config,
                    totalAgents = numAgents config,
                    status = Running\<rparr>
      in s\<lparr>runs := newRun # runs s,
            runConfigs := AList.update newRunId config (runConfigs s),
            selectedRunId := Some newRunId,
            selectedTurn := Some Summary\<rparr>)"

definition handleSelectRun :: "string \<Rightarrow> page_state \<Rightarrow> page_state" where
  "handleSelectRun run_id s = s\<lparr>selectedRunId := Some run_id, selectedTurn := Some Summary\<rparr>"

definition handleSelectTurn :: "selected_turn \<Rightarrow> page_state \<Rightarrow> page_state" where
  "handleSelectTurn turn s = s\<lparr>selectedTurn := Some turn\<rparr>"

definition handleStartNewRun :: "page_state \<Rightarrow> page_state" where
  "handleStartNewRun s = s\<lparr>selectedRunId := None, selectedTurn := None\<rparr>"

subsection \<open>The configuration form\<close>

text \<open>
  The form keeps the two state variables \<open>numAgents\<close> and \<open>numTurns\<close>, here a \<open>RunConfig\<close>.
  A change event carries \<open>Number(e.currentTarget.value)\<close>, which is a number or \<open>NaN\<close>.
\<close>

datatype jsnum = NaN | Num real

definition ConfigForm_init :: "RunConfig \<Rightarrow> RunConfig" where
  "ConfigForm_init defaultConfig =
     \<lparr>numAgents = numAgents defaultConfig, numTurns = numTurns defaultConfig\<rparr>"

definition onChange_numAgents :: "jsnum \<Rightarrow> RunConfig \<Rightarrow> RunConfig" where
  "onChange_numAgents v st =
     st\<lparr>numAgents := (case v of NaN \<Rightarrow> 1 | Num x \<Rightarrow> if x < 1 then 1 else x)\<rparr>"

definition onChange_numTurns :: "jsnum \<Rightarrow> RunConfig \<Rightarrow> RunConfig" where
  "onChange_numTurns v st =
     st\<lparr>numTurns := (case v of NaN \<Rightarrow> 1 | Num x \<Rightarrow> if x < 1 then 1 else x)\<rparr>"

text \<open>The configuration that the form's submit handler passes to \<open>onSubmit\<close>.\<close>

definition handleSubmit :: "RunConfig \<Rightarrow> RunConfig" where
  "handleSubmit st = \<lparr>numAgents = numAgents st, numTurns = numTurns st\<rparr>"

subsection \<open>The page with its form\<close>

text \<open>
  The form is mounted exactly while no run is selected (the start screen) and starts
  from \<open>DEFAULT_CONFIG\<close> each time it is mounted. Its \<open>onSubmit\<close> is the page's
  \<open>handleConfigSubmit\<close>; this is the only call of that handler.
\<close>

record app_state =
  page :: page_state
  form :: "RunConfig option"

datatype event =
    ChangeNumAgents jsnum
  | ChangeNumTurns jsnum
  | SubmitForm nat
  | SelectRun string
  | SelectTurn selected_turn
  | StartNewRun

definition render :: "RunConfig option \<Rightarrow> page_state \<Rightarrow> app_state" where
  "render mounted s =
     \<lparr>page = s,
      form = (if selectedRunId s = None
              then (case mounted of
                      Some st \<Rightarrow> Some st
                    | None \<Rightarrow> Some (ConfigForm_init DEFAULT_CONFIG))
              else None)\<rparr>"

definition initial_app :: "Turn Record Record \<Rightarrow> app_state" where
  "initial_app dummy_turns = render None (initial_page dummy_turns)"

fun step :: "host \<Rightarrow> app_state \<Rightarrow> event \<Rightarrow> app_state" where
  "step h a (ChangeNumAgents v) =
     (case form a of None \<Rightarrow> a | Some st \<Rightarrow> a\<lparr>form := Some (onChange_numAgents v st)\<rparr>)"
| "step h a (ChangeNumTurns v) =
     (case form a of None \<Rightarrow> a | Some st \<Rightarrow> a\<lparr>form := Some (onChange_numTurns v st)\<rparr>)"
| "step h a (SubmitForm now) =
     (case form a of
        None \<Rightarrow> a
      | Some st \<Rightarrow> render (form a) (handleConfigSubmit h now (handleSubmit st) (page a)))"
| "step h a (SelectRun run_id) = render (form a) (handleSelectRun run_id (page a))"
| "step h a (SelectTurn turn) =
     (if selectedRunId (page a) = None then a
      else render (form a) (handleSelectTurn turn (page a)))"
| "step h a StartNewRun = render (form a) (handleStartNewRun (page a))"

text \<open>The configuration submitted by an event, if it submits one.\<close>

fun submitted :: "app_state \<Rightarrow> event \<Rightarrow> RunConfig option" where
  "submitted a (SubmitForm now) = map_option handleSubmit (form a)"
| "submitted a _ = None"

section \<open>A sample host\<close>

text \<open>
  A host whose clock stands still at the epoch and whose \<open>Number\<close> reads decimal digits,
  used where a statement is evaluated on concrete data.
\<close>

definition host0 :: host where
  "host0 =
     \<lparr>Date_now = (\<lambda>run_id turn_no idx site. 0),
      toISOString = (\<lambda>ms. ''1970-01-01T00:00:00.000Z''),
      Number = (\<lambda>key. real (foldl (\<lambda>n c. 10 * n + (of_char c - 48)) 0 key))\<rparr>"

section \<open>Lemmas on the turn generator\<close>

lemma bind_error_Inl [simp]: "bind_error (Inl e) k = Inl e"
  by (simp add: bind_error_def)

lemma bind_error_Inr [simp]: "bind_error (Inr v) k = k v"
  by (simp add: bind_error_def)

lemma bind_error_eq_Inr: "(bind_error m k = Inr w) = (\<exists>v. m = Inr v \<and> k v = Inr w)"
  by (cases m) simp_all

lemma not_isl_iff: "(\<not> isl m) = (\<exists>v. m = Inr v)"
  by (cases m) simp_all

lemma agentFeed_Inr:
  assumes "agentFeed h r t sel ps a i = Inr f"
  shows "postUris f = feedPostUris t sel i ps" and "Feed.agentHandle f = handle a"
  using assms by (auto simp: agentFeed_def new_Date_toISOString_def split: if_splits)

lemma agentFeed_returns:
  "Date_now h r t i 0 + t * 60000 \<le> 8640000000000000 \<Longrightarrow> \<not> isl (agentFeed h r t sel ps a i)"
  by (simp add: agentFeed_def new_Date_toISOString_def)

lemma agentFeed_throws:
  "8640000000000000 < Date_now h r t i 0 + t * 60000 \<Longrightarrow> agentFeed h r t sel ps a i = Inl RangeError"
  by (simp add: agentFeed_def new_Date_toISOString_def)

lemma likeActions_returns:
  "Date_now h r t i 1 + t * 60000 + 5000 \<le> 8640000000000000 \<Longrightarrow>
     \<not> isl (likeActions h r t uris a i)"
  by (auto simp: likeActions_def new_Date_toISOString_def)

lemma followActions_returns:
  "Date_now h r t i 2 + t * 60000 + 7000 \<le> 8640000000000000 \<Longrightarrow>
     \<not> isl (followActions h r t sel a i)"
  by (auto simp: followActions_def new_Date_toISOString_def)

lemma agentActionList_returns:
  assumes "Date_now h r t i 1 + t * 60000 + 5000 \<le> 8640000000000000"
    and "Date_now h r t i 2 + t * 60000 + 7000 \<le> 8640000000000000"
  shows "\<not> isl (agentActionList h r t sel ps a i)"
proof -
  from likeActions_returns [OF assms(1)] obtain likes where
    "likeActions h r t (feedPostUris t sel i ps) a i = Inr likes"
    unfolding not_isl_iff by blast
  moreover from followActions_returns [OF assms(2)] obtain follows where
    "followActions h r t sel a i = Inr follows"
    unfolding not_isl_iff by blast
  ultimately show ?thesis by (simp add: agentActionList_def Let_def)
qed

lemma forEachAgent_Inr:
  assumes "forEachAgent h r t sel ps (fs, as) (a, i) = Inr tabs"
  shows "\<exists>f acts. agentFeed h r t sel ps a i = Inr f \<and> agentActionList h r t sel ps a i = Inr acts \<and>
           tabs = (AList.update (handle a) f fs, AList.update (handle a) acts as)"
  using assms by (auto simp: forEachAgent_def bind_error_eq_Inr)

lemma forEach_snoc: "forEach f s (xs @ [x]) = bind_error (forEach f s xs) (\<lambda>s'. f s' x)"
proof (induction xs arbitrary: s)
  case Nil
  show ?case by (cases "f s x") simp_all
next
  case (Cons y ys)
  show ?case by (cases "f s y") (simp_all add: Cons)
qed

lemma find_SomeD: "find P xs = Some x \<Longrightarrow> x \<in> set xs \<and> P x"
  by (induction xs) (auto split: if_splits)

lemma find_NoneD: "find P xs = None \<Longrightarrow> x \<in> set xs \<Longrightarrow> \<not> P x"
  by (simp add: find_None_iff)

text \<open>
  When the loop returns, the entry under a key is the one written for the last position
  that has this handle, and every position was served without an exception.
\<close>

lemma feeds_forEach_lookup:
  "forEach (forEachAgent h r t sel ps) tabs xs = Inr tabs' \<Longrightarrow>
     map_of (fst tabs') k =
       (case find (\<lambda>x. handle (fst x) = k) (rev xs) of
          None \<Rightarrow> map_of (fst tabs) k
        | Some x \<Rightarrow> Some (projr (agentFeed h r t sel ps (fst x) (snd x))))"
proof (induction xs arbitrary: tabs' rule: rev_induct)
  case Nil
  then show ?case by simp
next
  case (snoc x xs)
  obtain a i where x: "x = (a, i)" by (cases x)
  from snoc.prems obtain tabs1 where t1: "forEach (forEachAgent h r t sel ps) tabs xs = Inr tabs1"
    and last: "forEachAgent h r t sel ps tabs1 x = Inr tabs'"
    by (auto simp: forEach_snoc bind_error_eq_Inr)
  obtain fs as where tb: "tabs1 = (fs, as)" by (cases tabs1)
  from forEachAgent_Inr [OF last [unfolded tb x]] obtain f where
    f: "agentFeed h r t sel ps a i = Inr f" and fst': "fst tabs' = AList.update (handle a) f fs"
    by auto
  show ?case using snoc.IH [OF t1]
    by (simp add: x tb fst' f update_conv')
qed

lemma actions_forEach_lookup:
  "forEach (forEachAgent h r t sel ps) tabs xs = Inr tabs' \<Longrightarrow>
     map_of (snd tabs') k =
       (case find (\<lambda>x. handle (fst x) = k) (rev xs) of
          None \<Rightarrow> map_of (snd tabs) k
        | Some x \<Rightarrow> Some (projr (agentActionList h r t sel ps (fst x) (snd x))))"
proof (induction xs arbitrary: tabs' rule: rev_induct)
  case Nil
  then show ?case by simp
next
  case (snoc x xs)
  obtain a i where x: "x = (a, i)" by (cases x)
  from snoc.prems obtain tabs1 where t1: "forEach (forEachAgent h r t sel ps) tabs xs = Inr tabs1"
    and last: "forEachAgent h r t sel ps tabs1 x = Inr tabs'"
    by (auto simp: forEach_snoc bind_error_eq_Inr)
  obtain fs as where tb: "tabs1 = (fs, as)" by (cases tabs1)
  from forEachAgent_Inr [OF last [unfolded tb x]] obtain acts where
    f: "agentActionList h r t sel ps a i = Inr acts" and snd': "snd tabs' = AList.update (handle a) acts as"
    by auto
  show ?case using snoc.IH [OF t1]
    by (simp add: x tb snd' f update_conv')
qed

lemma forEach_all_return:
  "forEach (forEachAgent h r t sel ps) tabs xs = Inr tabs' \<Longrightarrow> x \<in> set xs \<Longrightarrow>
     \<not> isl (agentFeed h r t sel ps (fst x) (snd x)) \<and>
     \<not> isl (agentActionList h r t sel ps (fst x) (snd x))"
proof (induction xs arbitrary: tabs' rule: rev_induct)
  case Nil
  then show ?case by simp
next
  case (snoc y ys)
  obtain a i where y: "y = (a, i)" by (cases y)
  from snoc.prems(1) obtain tabs1 where t1: "forEach (forEachAgent h r t sel ps) tabs ys = Inr tabs1"
    and last: "forEachAgent h r t sel ps tabs1 y = Inr tabs'"
    by (auto simp: forEach_snoc bind_error_eq_Inr)
  obtain fs as where tb: "tabs1 = (fs, as)" by (cases tabs1)
  from forEachAgent_Inr [OF last [unfolded tb y]]
  have here: "\<not> isl (agentFeed h r t sel ps a i) \<and> \<not> isl (agentActionList h r t sel ps a i)"
    by auto
  show ?case
  proof (cases "x = y")
    case True
    with here y show ?thesis by simp
  next
    case False
    with snoc.prems(2) have "x \<in> set ys" by simp
    from snoc.IH [OF t1 this] show ?thesis .
  qed
qed

lemma forEach_returns:
  "(\<And>x. x \<in> set xs \<Longrightarrow> \<not> isl (agentFeed h r t sel ps (fst x) (snd x)) \<and>
                          \<not> isl (agentActionList h r t sel ps (fst x) (snd x))) \<Longrightarrow>
     \<not> isl (forEach (forEachAgent h r t sel ps) tabs xs)"
proof (induction xs arbitrary: tabs)
  case Nil
  show ?case by simp
next
  case (Cons x xs)
  obtain a i where x: "x = (a, i)" by (cases x)
  obtain fs as where tb: "tabs = (fs, as)" by (cases tabs)
  from Cons.prems [of x] obtain f acts where
    "agentFeed h r t sel ps a i = Inr f" "agentActionList h r t sel ps a i = Inr acts"
    by (auto simp: x not_isl_iff)
  then have "forEachAgent h r t sel ps tabs x =
      Inr (AList.update (handle a) f fs, AList.update (handle a) acts as)"
    by (simp add: forEachAgent_def x tb)
  moreover have "\<not> isl (forEach (forEachAgent h r t sel ps)
      (AList.update (handle a) f fs, AList.update (handle a) acts as) xs)"
    by (rule Cons.IH) (simp add: Cons.prems)
  ultimately show ?case by simp
qed

lemma find_zip_upt_Some:
  assumes "find P (rev (zip xs [0..<length xs])) = Some x"
  shows "snd x < length xs \<and> fst x = xs ! snd x \<and> P x"
proof -
  from assms have "x \<in> set (zip xs [0..<length xs])" and px: "P x"
    by (auto dest: find_SomeD)
  then obtain j where "j < length xs" "x = (xs ! j, [0..<length xs] ! j)"
    by (auto simp: set_zip)
  then show ?thesis using px by simp
qed

lemma length_selectAgents: "length (selectAgents t agents) = min (length agents) 5"
  by (simp add: selectAgents_def)

lemma nth_selectAgents:
  "i < min (length agents) 5 \<Longrightarrow>
     selectAgents t agents ! i = agents ! ((t + i) mod length agents)"
  by (simp add: selectAgents_def mod_add_left_eq)

lemma createTurnForRun_Inr:
  assumes "createTurnForRun h r t agents ps = Inr turn"
  shows "\<exists>tabs. forEach (forEachAgent h r t (selectAgents t agents) ps) ([], [])
                  (zip (selectAgents t agents) [0..<length (selectAgents t agents)]) = Inr tabs \<and>
                agentFeeds turn = fst tabs \<and> agentActions turn = snd tabs \<and>
                Turn.turnNumber turn = t"
  using assms by (auto simp: createTurnForRun_def Let_def bind_error_eq_Inr)

lemma feed_lookup:
  assumes "createTurnForRun h r t agents ps = Inr turn"
    and "map_of (agentFeeds turn) k = Some f"
  shows "\<exists>i < min (length agents) 5.
           k = handle (agents ! ((t + i) mod length agents)) \<and>
           agentFeed h r t (selectAgents t agents) ps (agents ! ((t + i) mod length agents)) i = Inr f"
proof -
  let ?sel = "selectAgents t agents"
  from createTurnForRun_Inr [OF assms(1)] obtain tabs where
    loop: "forEach (forEachAgent h r t ?sel ps) ([], []) (zip ?sel [0..<length ?sel]) = Inr tabs"
    and feeds: "agentFeeds turn = fst tabs" by blast
  from assms(2) feeds_forEach_lookup [OF loop, of k] obtain x where
    fx: "find (\<lambda>x. handle (fst x) = k) (rev (zip ?sel [0..<length ?sel])) = Some x"
    and f: "f = projr (agentFeed h r t ?sel ps (fst x) (snd x))"
    by (auto simp: feeds split: option.splits)
  from find_SomeD [OF fx] have "x \<in> set (zip ?sel [0..<length ?sel])" by simp
  from forEach_all_return [OF loop this] f
  have ret: "agentFeed h r t ?sel ps (fst x) (snd x) = Inr f"
    by (auto simp: not_isl_iff)
  from find_zip_upt_Some [OF fx]
  have "snd x < length ?sel" "fst x = ?sel ! snd x" "handle (fst x) = k" by auto
  then show ?thesis using ret
    by (intro exI [of _ "snd x"]) (auto simp: length_selectAgents nth_selectAgents)
qed

lemma actions_lookup:
  assumes "createTurnForRun h r t agents ps = Inr turn"
    and "map_of (agentActions turn) k = Some acts"
  shows "\<exists>i < min (length agents) 5.
           k = handle (agents ! ((t + i) mod length agents)) \<and>
           agentActionList h r t (selectAgents t agents) ps (agents ! ((t + i) mod length agents)) i
             = Inr acts"
proof -
  let ?sel = "selectAgents t agents"
  from createTurnForRun_Inr [OF assms(1)] obtain tabs where
    loop: "forEach (forEachAgent h r t ?sel ps) ([], []) (zip ?sel [0..<length ?sel]) = Inr tabs"
    and actions: "agentActions turn = snd tabs" by blast
  from assms(2) actions_forEach_lookup [OF loop, of k] obtain x where
    fx: "find (\<lambda>x. handle (fst x) = k) (rev (zip ?sel [0..<length ?sel])) = Some x"
    and f: "acts = projr (agentActionList h r t ?sel ps (fst x) (snd x))"
    by (auto simp: actions split: option.splits)
  from find_SomeD [OF fx] have "x \<in> set (zip ?sel [0..<length ?sel])" by simp
  from forEach_all_return [OF loop this] f
  have ret: "agentActionList h r t ?sel ps (fst x) (snd x) = Inr acts"
    by (auto simp: not_isl_iff)
  from find_zip_upt_Some [OF fx]
  have "snd x < length ?sel" "fst x = ?sel ! snd x" "handle (fst x) = k" by auto
  then show ?thesis using ret
    by (intro exI [of _ "snd x"]) (auto simp: length_selectAgents nth_selectAgents)
qed

lemma filter_Boolean_Some:
  "filter_Boolean (map Some us) = filter (\<lambda>u. u \<noteq> []) us"
  by (induction us) auto

lemma length_filter_Boolean: "length (filter_Boolean us) \<le> length us"
  by (induction us rule: filter_Boolean.induct) auto

lemma length_feedPostUris: "length (feedPostUris t sel i ps) \<le> 3"
proof -
  have "length (feedPostUris t sel i ps) \<le> length [0::nat, 1, 2]"
    unfolding feedPostUris_def Let_def
    by (rule order_trans [OF length_filter_Boolean]) simp
  then show ?thesis by simp
qed

lemma feedPostUris_empty: "feedPostUris t sel i [] = []"
  by (simp add: feedPostUris_def js_rem_def js_add_def js_at_def)

lemma feedPostUris_window:
  assumes "ps \<noteq> []"
  shows "feedPostUris t sel i ps =
           filter (\<lambda>u. u \<noteq> [])
             (map (\<lambda>j. uri (ps ! ((t * length sel + i + j) mod length ps))) [0, 1, 2])"
proof -
  let ?P = "length ps" and ?s = "t * length sel + i"
  from assms have P: "0 < ?P" by simp
  have a: "js_rem (Some ?s) ?P = Some (?s mod ?P)"
    using P by (simp add: js_rem_def)
  have b: "js_rem (js_add (Some (?s mod ?P)) j) ?P = Some ((?s + j) mod ?P)" for j
    using P by (simp add: js_rem_def js_add_def mod_add_left_eq)
  have b0: "js_rem (Some (?s mod ?P)) ?P = Some (?s mod ?P)"
    using P by (simp add: js_rem_def)
  have c: "map_option uri (js_at ps (Some (n mod ?P))) = Some (uri (ps ! (n mod ?P)))" for n
    using P by (simp add: js_at_def)
  have "feedPostUris t sel i ps =
          filter_Boolean (map Some
            (map (\<lambda>j. uri (ps ! ((?s + j) mod ?P))) [0, 1, 2]))"
    by (simp add: feedPostUris_def Let_def a b b0 c)
  then show ?thesis by (simp only: filter_Boolean_Some)
qed

lemma mod_shift_inj:
  fixes n :: nat
  assumes "i < n" "j < n" "(a + i) mod n = (a + j) mod n"
  shows "i = j"
proof -
  have aux: "x = y" if "x \<le> y" "y < n" "(a + x) mod n = (a + y) mod n" for x y
  proof -
    from that have "(a + y) mod n = (a + x) mod n" "a + x \<le> a + y" by simp_all
    then have "n dvd (a + y) - (a + x)"
      using mod_eq_dvd_iff_nat [of "a + x" "a + y" n] by blast
    then have "n dvd y - x" by simp
    moreover have "y - x < n" using that by simp
    ultimately have "y - x = 0" by (meson dvd_imp_le not_less zero_less_iff_neq_zero)
    with that show ?thesis by simp
  qed
  show ?thesis
  proof (cases "i \<le> j")
    case True
    with assms aux show ?thesis by blast
  next
    case False
    then have "j \<le> i" by simp
    with assms aux [of j i] show ?thesis by simp
  qed
qed

lemma distinct_selectAgents_handles:
  assumes "distinct (map handle agents)"
  shows "distinct (map handle (selectAgents t agents))"
proof -
  let ?n = "length agents"
  have "distinct (map (\<lambda>i. handle (agents ! ((t mod ?n + i) mod ?n))) [0..<min ?n 5])"
  proof (rule iffD2 [OF distinct_map], intro conjI inj_onI)
    show "distinct [0..<min ?n 5]" by simp
  next
    fix i j
    assume ij: "i \<in> set [0..<min ?n 5]" "j \<in> set [0..<min ?n 5]"
      and eq: "handle (agents ! ((t mod ?n + i) mod ?n)) = handle (agents ! ((t mod ?n + j) mod ?n))"
    from ij have lt: "i < ?n" "j < ?n" by auto
    then have n: "0 < ?n" by (cases agents) auto
    have "(t mod ?n + i) mod ?n = (t mod ?n + j) mod ?n"
      using nth_eq_iff_index_eq [OF assms, of "(t mod ?n + i) mod ?n" "(t mod ?n + j) mod ?n"] eq n
      by simp
    with lt show "i = j" by (rule mod_shift_inj)
  qed
  then show ?thesis by (simp add: selectAgents_def Let_def comp_def)
qed

lemma feeds_keys_distinct:
  "forEach (forEachAgent h r t sel ps) tabs xs = Inr tabs' \<Longrightarrow> distinct (map fst (fst tabs)) \<Longrightarrow>
     distinct (map fst (fst tabs'))"
proof (induction xs arbitrary: tabs' rule: rev_induct)
  case Nil
  then show ?case by simp
next
  case (snoc x xs)
  obtain a i where x: "x = (a, i)" by (cases x)
  from snoc.prems(1) obtain tabs1 where t1: "forEach (forEachAgent h r t sel ps) tabs xs = Inr tabs1"
    and last: "forEachAgent h r t sel ps tabs1 x = Inr tabs'"
    by (auto simp: forEach_snoc bind_error_eq_Inr)
  obtain fs as where tb: "tabs1 = (fs, as)" by (cases tabs1)
  from forEachAgent_Inr [OF last [unfolded tb x]] obtain f where
    "fst tabs' = AList.update (handle a) f fs" by auto
  then show ?case using snoc.IH [OF t1 snoc.prems(2)]
    by (simp add: tb distinct_update)
qed

lemma actions_keys_distinct:
  "forEach (forEachAgent h r t sel ps) tabs xs = Inr tabs' \<Longrightarrow> distinct (map fst (snd tabs)) \<Longrightarrow>
     distinct (map fst (snd tabs'))"
proof (induction xs arbitrary: tabs' rule: rev_induct)
  case Nil
  then show ?case by simp
next
  case (snoc x xs)
  obtain a i where x: "x = (a, i)" by (cases x)
  from snoc.prems(1) obtain tabs1 where t1: "forEach (forEachAgent h r t sel ps) tabs xs = Inr tabs1"
    and last: "forEachAgent h r t sel ps tabs1 x = Inr tabs'"
    by (auto simp: forEach_snoc bind_error_eq_Inr)
  obtain fs as where tb: "tabs1 = (fs, as)" by (cases tabs1)
  from forEachAgent_Inr [OF last [unfolded tb x]] obtain acts where
    "snd tabs' = AList.update (handle a) acts as" by auto
  then show ?case using snoc.IH [OF t1 snoc.prems(2)]
    by (simp add: tb distinct_update)
qed

lemma feed_entry_lookup:
  assumes "createTurnForRun h r t agents ps = Inr turn"
  shows "((k, f) \<in> set (agentFeeds turn)) = (map_of (agentFeeds turn) k = Some f)"
proof -
  from createTurnForRun_Inr [OF assms] obtain tabs where
    "forEach (forEachAgent h r t (selectAgents t agents) ps) ([], [])
       (zip (selectAgents t agents) [0..<length (selectAgents t agents)]) = Inr tabs"
    and "agentFeeds turn = fst tabs" by blast
  then have "distinct (map fst (agentFeeds turn))"
    using feeds_keys_distinct by fastforce
  then show ?thesis by simp
qed

lemma actions_entry_lookup:
  assumes "createTurnForRun h r t agents ps = Inr turn"
  shows "((k, acts) \<in> set (agentActions turn)) = (map_of (agentActions turn) k = Some acts)"
proof -
  from createTurnForRun_Inr [OF assms] obtain tabs where
    "forEach (forEachAgent h r t (selectAgents t agents) ps) ([], [])
       (zip (selectAgents t agents) [0..<length (selectAgents t agents)]) = Inr tabs"
    and "agentActions turn = snd tabs" by blast
  then have "distinct (map fst (agentActions turn))"
    using actions_keys_distinct by fastforce
  then show ?thesis by simp
qed

lemma feed_key_present:
  assumes "createTurnForRun h r t agents ps = Inr turn" and "i < min (length agents) 5"
  shows "map_of (agentFeeds turn) (handle (agents ! ((t + i) mod length agents))) \<noteq> None"
proof
  let ?sel = "selectAgents t agents"
  let ?k = "handle (agents ! ((t + i) mod length agents))"
  from createTurnForRun_Inr [OF assms(1)] obtain tabs where
    loop: "forEach (forEachAgent h r t ?sel ps) ([], []) (zip ?sel [0..<length ?sel]) = Inr tabs"
    and feeds: "agentFeeds turn = fst tabs" by blast
  assume "map_of (agentFeeds turn) ?k = None"
  then have none: "find (\<lambda>x. handle (fst x) = ?k) (rev (zip ?sel [0..<length ?sel])) = None"
    using feeds_forEach_lookup [OF loop, of ?k] by (auto simp: feeds split: option.splits)
  have "(?sel ! i, i) \<in> set (rev (zip ?sel [0..<length ?sel]))"
    using assms(2) by (auto simp: set_zip length_selectAgents)
  from find_NoneD [OF none this] show False
    using assms(2) by (simp add: nth_selectAgents)
qed

lemma actions_key_present:
  assumes "createTurnForRun h r t agents ps = Inr turn" and "i < min (length agents) 5"
  shows "map_of (agentActions turn) (handle (agents ! ((t + i) mod length agents))) \<noteq> None"
proof
  let ?sel = "selectAgents t agents"
  let ?k = "handle (agents ! ((t + i) mod length agents))"
  from createTurnForRun_Inr [OF assms(1)] obtain tabs where
    loop: "forEach (forEachAgent h r t ?sel ps) ([], []) (zip ?sel [0..<length ?sel]) = Inr tabs"
    and actions: "agentActions turn = snd tabs" by blast
  assume "map_of (agentActions turn) ?k = None"
  then have none: "find (\<lambda>x. handle (fst x) = ?k) (rev (zip ?sel [0..<length ?sel])) = None"
    using actions_forEach_lookup [OF loop, of ?k] by (auto simp: actions split: option.splits)
  have "(?sel ! i, i) \<in> set (rev (zip ?sel [0..<length ?sel]))"
    using assms(2) by (auto simp: set_zip length_selectAgents)
  from find_NoneD [OF none this] show False
    using assms(2) by (simp add: nth_selectAgents)
qed

lemma rotation_index_unique:
  assumes d: "distinct (map handle agents)"
    and i: "i < min (length agents) 5" and j: "j < min (length agents) 5"
    and eq: "handle (agents ! ((t + i) mod length agents)) = handle (agents ! ((t + j) mod length agents))"
  shows "i = j"
proof -
  let ?n = "length agents"
  from i have n: "0 < ?n" by (cases agents) auto
  have "(t + i) mod ?n = (t + j) mod ?n"
    using nth_eq_iff_index_eq [OF d, of "(t + i) mod ?n" "(t + j) mod ?n"] eq n by simp
  moreover have "i < ?n" "j < ?n" using i j by simp_all
  ultimately show ?thesis using mod_shift_inj by blast
qed

lemma feed_of_selected:
  assumes ret: "createTurnForRun h r t agents ps = Inr turn"
    and d: "distinct (map handle agents)" and i: "i < min (length agents) 5"
  shows "agentFeed h r t (selectAgents t agents) ps (agents ! ((t + i) mod length agents)) i =
           Inr (projr (agentFeed h r t (selectAgents t agents) ps (agents ! ((t + i) mod length agents)) i))
         \<and> map_of (agentFeeds turn) (handle (agents ! ((t + i) mod length agents))) =
           Some (projr (agentFeed h r t (selectAgents t agents) ps (agents ! ((t + i) mod length agents)) i))"
proof -
  from feed_key_present [OF ret i] obtain f where
    f: "map_of (agentFeeds turn) (handle (agents ! ((t + i) mod length agents))) = Some f"
    by blast
  from feed_lookup [OF ret f] obtain j where j: "j < min (length agents) 5"
    and eq: "handle (agents ! ((t + i) mod length agents)) = handle (agents ! ((t + j) mod length agents))"
    and fj: "agentFeed h r t (selectAgents t agents) ps (agents ! ((t + j) mod length agents)) j = Inr f"
    by blast
  from rotation_index_unique [OF d i j eq] have "i = j" .
  with f fj show ?thesis by simp
qed

lemma actions_of_selected:
  assumes ret: "createTurnForRun h r t agents ps = Inr turn"
    and d: "distinct (map handle agents)" and i: "i < min (length agents) 5"
  shows "agentActionList h r t (selectAgents t agents) ps (agents ! ((t + i) mod length agents)) i =
           Inr (projr (agentActionList h r t (selectAgents t agents) ps
                  (agents ! ((t + i) mod length agents)) i))
         \<and> map_of (agentActions turn) (handle (agents ! ((t + i) mod length agents))) =
           Some (projr (agentActionList h r t (selectAgents t agents) ps
                  (agents ! ((t + i) mod length agents)) i))"
proof -
  from actions_key_present [OF ret i] obtain f where
    f: "map_of (agentActions turn) (handle (agents ! ((t + i) mod length agents))) = Some f"
    by blast
  from actions_lookup [OF ret f] obtain j where j: "j < min (length agents) 5"
    and eq: "handle (agents ! ((t + i) mod length agents)) = handle (agents ! ((t + j) mod length agents))"
    and fj: "agentActionList h r t (selectAgents t agents) ps (agents ! ((t + j) mod length agents)) j = Inr f"
    by blast
  from rotation_index_unique [OF d i j eq] have "i = j" .
  with f fj show ?thesis by simp
qed

text \<open>When the generator returns and when it throws.\<close>

lemma createTurnForRun_returns:
  assumes "\<And>i site. i < min (length agents) 5 \<Longrightarrow> site < 3 \<Longrightarrow>
             Date_now h r t i site + t * 60000 + 7000 \<le> 8640000000000000"
  shows "\<not> isl (createTurnForRun h r t agents ps)"
proof -
  let ?sel = "selectAgents t agents"
  have "\<not> isl (forEach (forEachAgent h r t ?sel ps) ([], []) (zip ?sel [0..<length ?sel]))"
  proof (rule forEach_returns)
    fix x assume "x \<in> set (zip ?sel [0..<length ?sel])"
    then have i: "snd x < min (length agents) 5"
      by (auto simp: set_zip length_selectAgents)
    from assms [OF i, of 0] assms [OF i, of 1] assms [OF i, of 2]
    show "\<not> isl (agentFeed h r t ?sel ps (fst x) (snd x)) \<and>
          \<not> isl (agentActionList h r t ?sel ps (fst x) (snd x))"
      by (intro conjI agentFeed_returns agentActionList_returns) simp_all
  qed
  then obtain tabs where
    "forEach (forEachAgent h r t ?sel ps) ([], []) (zip ?sel [0..<length ?sel]) = Inr tabs"
    by (auto simp: not_isl_iff)
  then show ?thesis by (simp add: createTurnForRun_def Let_def)
qed

lemma createTurnForRun_throws:
  assumes "agents \<noteq> []" and "8640000000000000 < Date_now h r t 0 0 + t * 60000"
  shows "createTurnForRun h r t agents ps = Inl RangeError"
proof -
  let ?sel = "selectAgents t agents"
  from assms(1) have "0 < length ?sel" by (simp add: length_selectAgents)
  then obtain a rest where sel: "?sel = a # rest" by (cases ?sel) auto
  have "zip ?sel [0..<length ?sel] = (a, 0) # zip rest [1..<Suc (length rest)]"
    by (simp add: sel upt_conv_Cons del: upt_Suc)
  moreover have "forEachAgent h r t ?sel ps ([], []) (a, 0) = Inl RangeError"
    by (simp add: forEachAgent_def agentFeed_throws [OF assms(2)])
  ultimately show ?thesis by (simp add: createTurnForRun_def Let_def)
qed

lemma postUris_agentFeed:
  "postUris (projr (agentFeed h r t sel ps a i)) = feedPostUris t sel i ps"
  if "\<not> isl (agentFeed h r t sel ps a i)"
  using that agentFeed_Inr(1) by (auto simp: not_isl_iff)

lemma dummy_handles:
  "map handle DUMMY_AGENTS =
     [''@alice.bsky.social'', ''@bob.tech'', ''@charlie.dev'', ''@diana.design'',
      ''@edward.data'', ''@fiona.frontend'', ''@george.backend'', ''@hannah.ai'']"
  by (simp add: DUMMY_AGENTS_def)

lemma dummy_uris:
  "map uri DUMMY_POSTS =
     [''at://did:plc:example1/post1'', ''at://did:plc:example2/post2'',
      ''at://did:plc:example3/post3'', ''at://did:plc:example4/post4'',
      ''at://did:plc:example5/post5'', ''at://did:plc:example6/post6'',
      ''at://did:plc:example7/post7'', ''at://did:plc:example8/post8'',
      ''at://did:plc:example9/post9'', ''at://did:plc:example10/post10'']"
  by (simp add: DUMMY_POSTS_def)

lemma length_DUMMY_POSTS: "length DUMMY_POSTS = 10"
  using arg_cong [OF dummy_uris, of length] by simp

lemma length_DUMMY_AGENTS: "length DUMMY_AGENTS = 8"
  using arg_cong [OF dummy_handles, of length] by simp

lemma find_unique:
  "distinct (map f xs) \<Longrightarrow> x \<in> set xs \<Longrightarrow> find (\<lambda>p. f p = f x) xs = Some x"
  by (induction xs) auto

lemma dummy_handle_nth:
  assumes "j < 8"
  shows "handle (DUMMY_AGENTS ! j) =
     [''@alice.bsky.social'', ''@bob.tech'', ''@charlie.dev'', ''@diana.design'',
      ''@edward.data'', ''@fiona.frontend'', ''@george.backend'', ''@hannah.ai''] ! j"
proof -
  have "handle (DUMMY_AGENTS ! j) = map handle DUMMY_AGENTS ! j"
    using assms by (simp add: length_DUMMY_AGENTS)
  then show ?thesis by (simp only: dummy_handles)
qed

lemma dummy_uri_nth:
  assumes "j < 10"
  shows "uri (DUMMY_POSTS ! j) =
     [''at://did:plc:example1/post1'', ''at://did:plc:example2/post2'',
      ''at://did:plc:example3/post3'', ''at://did:plc:example4/post4'',
      ''at://did:plc:example5/post5'', ''at://did:plc:example6/post6'',
      ''at://did:plc:example7/post7'', ''at://did:plc:example8/post8'',
      ''at://did:plc:example9/post9'', ''at://did:plc:example10/post10''] ! j"
proof -
  have "uri (DUMMY_POSTS ! j) = map uri DUMMY_POSTS ! j"
    using assms by (simp add: length_DUMMY_POSTS)
  then show ?thesis by (simp only: dummy_uris)
qed

lemma roster3_handle_nth:
  assumes "j < 3"
  shows "handle (take 3 DUMMY_AGENTS ! j) = [''@alice.bsky.social'', ''@bob.tech'', ''@charlie.dev''] ! j"
proof -
  have "handle (take 3 DUMMY_AGENTS ! j) = take 3 (map handle DUMMY_AGENTS) ! j"
    using assms by (simp add: length_DUMMY_AGENTS)
  then show ?thesis unfolding dummy_handles by simp
qed

lemma roster3_distinct: "distinct (map handle (take 3 DUMMY_AGENTS))"
  unfolding take_map [symmetric] dummy_handles by simp

lemma roster3_length: "length (take 3 DUMMY_AGENTS) = 3"
  by (simp add: length_DUMMY_AGENTS)

lemma Inr_projr: "\<not> isl m \<Longrightarrow> m = Inr (projr m)"
  by (cases m) simp_all

lemma host0_returns:
  assumes "t * 60000 + 7000 \<le> 8640000000000000"
  shows "\<not> isl (createTurnForRun host0 r t agents ps)"
  by (rule createTurnForRun_returns) (use assms in \<open>simp add: host0_def\<close>)

lemma agentHandle_agentFeed:
  "\<not> isl (agentFeed h r t sel ps a i) \<Longrightarrow>
     Feed.agentHandle (projr (agentFeed h r t sel ps a i)) = handle a"
  using agentFeed_Inr(2) by (auto simp: not_isl_iff)

lemma roster3_feed:
  assumes "createTurnForRun h r t (take 3 DUMMY_AGENTS) ps = Inr turn" and "i < 3"
  shows "\<not> isl (agentFeed h r t (selectAgents t (take 3 DUMMY_AGENTS)) ps
                  (take 3 DUMMY_AGENTS ! ((t + i) mod 3)) i)"
    and "map_of (agentFeeds turn)
           ([''@alice.bsky.social'', ''@bob.tech'', ''@charlie.dev''] ! ((t + i) mod 3)) =
         Some (projr (agentFeed h r t (selectAgents t (take 3 DUMMY_AGENTS)) ps
                 (take 3 DUMMY_AGENTS ! ((t + i) mod 3)) i))"
proof -
  have i: "i < min (length (take 3 DUMMY_AGENTS)) 5"
    using assms(2) by (simp only: roster3_length)
  have lt: "(t + i) mod 3 < 3" by simp
  note sel = feed_of_selected [OF assms(1) roster3_distinct i, unfolded roster3_length]
  from sel show "\<not> isl (agentFeed h r t (selectAgents t (take 3 DUMMY_AGENTS)) ps
                  (take 3 DUMMY_AGENTS ! ((t + i) mod 3)) i)"
    by (auto simp: not_isl_iff)
  from sel roster3_handle_nth [OF lt]
  show "map_of (agentFeeds turn)
           ([''@alice.bsky.social'', ''@bob.tech'', ''@charlie.dev''] ! ((t + i) mod 3)) =
         Some (projr (agentFeed h r t (selectAgents t (take 3 DUMMY_AGENTS)) ps
                 (take 3 DUMMY_AGENTS ! ((t + i) mod 3)) i))"
    by simp
qed

lemma roster3_actions:
  assumes "createTurnForRun h r t (take 3 DUMMY_AGENTS) ps = Inr turn" and "i < 3"
  shows "\<not> isl (agentActionList h r t (selectAgents t (take 3 DUMMY_AGENTS)) ps
                  (take 3 DUMMY_AGENTS ! ((t + i) mod 3)) i)"
    and "map_of (agentActions turn)
           ([''@alice.bsky.social'', ''@bob.tech'', ''@charlie.dev''] ! ((t + i) mod 3)) =
         Some (projr (agentActionList h r t (selectAgents t (take 3 DUMMY_AGENTS)) ps
                 (take 3 DUMMY_AGENTS ! ((t + i) mod 3)) i))"
proof -
  have i: "i < min (length (take 3 DUMMY_AGENTS)) 5"
    using assms(2) by (simp only: roster3_length)
  have lt: "(t + i) mod 3 < 3" by simp
  note sel = actions_of_selected [OF assms(1) roster3_distinct i, unfolded roster3_length]
  from sel show "\<not> isl (agentActionList h r t (selectAgents t (take 3 DUMMY_AGENTS)) ps
                  (take 3 DUMMY_AGENTS ! ((t + i) mod 3)) i)"
    by (auto simp: not_isl_iff)
  from sel roster3_handle_nth [OF lt]
  show "map_of (agentActions turn)
           ([''@alice.bsky.social'', ''@bob.tech'', ''@charlie.dev''] ! ((t + i) mod 3)) =
         Some (projr (agentActionList h r t (selectAgents t (take 3 DUMMY_AGENTS)) ps
                 (take 3 DUMMY_AGENTS ! ((t + i) mod 3)) i))"
    by simp
qed


section \<open>Feed size, post lookup and run creation\<close>

text \<open>
  Claim C5, as the code has it. In every turn that \<open>createTurnForRun\<close> returns, each feed
  lists at most three post URIs; none when the corpus is empty, and exactly three when the
  corpus is not empty and has no empty URI, because the corpus is read cyclically: a
  corpus of one or two posts is repeated, not cut short. The call returns a turn whenever
  each clock reading plus \<open>turnNumber\<close> minutes plus seven seconds is a time that a \<open>Date\<close>
  can hold.
\<close>

theorem feed_length_and_return:
  "(createTurnForRun h r t agents ps = Inr turn \<and> (k, f) \<in> set (agentFeeds turn) \<longrightarrow>
      length (postUris f) \<le> 3 \<and>
      (ps = [] \<longrightarrow> postUris f = []) \<and>
      (ps \<noteq> [] \<and> [] \<notin> uri ` set ps \<longrightarrow> length (postUris f) = 3)) \<and>
   ((\<forall>i < min (length agents) 5. \<forall>site < 3.
        Date_now h r t i site + t * 60000 + 7000 \<le> 8640000000000000) \<longrightarrow>
      (\<exists>turn'. createTurnForRun h r t agents ps = Inr turn'))"
proof (intro conjI impI)
  assume "createTurnForRun h r t agents ps = Inr turn \<and> (k, f) \<in> set (agentFeeds turn)"
  then have ret: "createTurnForRun h r t agents ps = Inr turn"
    and mem: "(k, f) \<in> set (agentFeeds turn)"
    by simp_all
  from mem have "map_of (agentFeeds turn) k = Some f"
    by (simp only: feed_entry_lookup [OF ret])
  from feed_lookup [OF ret this] obtain i a where
    "agentFeed h r t (selectAgents t agents) ps a i = Inr f"
    by blast
  then have uris: "postUris f = feedPostUris t (selectAgents t agents) i ps"
    by (rule agentFeed_Inr)
  show "length (postUris f) \<le> 3"
    unfolding uris by (rule length_feedPostUris)
  show "postUris f = []" if "ps = []"
    unfolding uris that by (rule feedPostUris_empty)
  show "length (postUris f) = 3" if full: "ps \<noteq> [] \<and> [] \<notin> uri ` set ps"
  proof -
    from full have ne: "ps \<noteq> []" and P: "0 < length ps" by simp_all
    have "uri (ps ! (n mod length ps)) \<noteq> []" for n
    proof -
      have "ps ! (n mod length ps) \<in> set ps" using P by simp
      then have "uri (ps ! (n mod length ps)) \<in> uri ` set ps" by (rule imageI)
      with full show ?thesis by metis
    qed
    then show ?thesis
      unfolding uris feedPostUris_window [OF ne] by simp
  qed
next
  assume "\<forall>i < min (length agents) 5. \<forall>site < 3.
        Date_now h r t i site + t * 60000 + 7000 \<le> 8640000000000000"
  then have "\<not> isl (createTurnForRun h r t agents ps)"
    by (intro createTurnForRun_returns) blast
  then show "\<exists>turn'. createTurnForRun h r t agents ps = Inr turn'"
    by (simp only: not_isl_iff)
qed

theorem feed_length_and_return_witness:
  "\<not> isl (createTurnForRun host0 ''run_2025-01-15T10:30:00'' 1 (take 3 DUMMY_AGENTS) DUMMY_POSTS) \<and>
   (''@bob.tech'',
    projr (agentFeed host0 ''run_2025-01-15T10:30:00'' 1 (selectAgents 1 (take 3 DUMMY_AGENTS))
             DUMMY_POSTS (take 3 DUMMY_AGENTS ! 1) 0))
     \<in> set (agentFeeds (projr
          (createTurnForRun host0 ''run_2025-01-15T10:30:00'' 1 (take 3 DUMMY_AGENTS) DUMMY_POSTS))) \<and>
   DUMMY_POSTS \<noteq> [] \<and> [] \<notin> uri ` set DUMMY_POSTS \<and>
   length (postUris
     (projr (agentFeed host0 ''run_2025-01-15T10:30:00'' 1 (selectAgents 1 (take 3 DUMMY_AGENTS))
               DUMMY_POSTS (take 3 DUMMY_AGENTS ! 1) 0))) = 3 \<and>
   (''@alice.bsky.social'',
    projr (agentFeed host0 ''run_2025-01-15T10:30:00'' 0 (selectAgents 0 (take 3 DUMMY_AGENTS))
             [] (take 3 DUMMY_AGENTS ! 0) 0))
     \<in> set (agentFeeds (projr
          (createTurnForRun host0 ''run_2025-01-15T10:30:00'' 0 (take 3 DUMMY_AGENTS) []))) \<and>
   postUris
     (projr (agentFeed host0 ''run_2025-01-15T10:30:00'' 0 (selectAgents 0 (take 3 DUMMY_AGENTS))
               [] (take 3 DUMMY_AGENTS ! 0) 0)) = []"
proof -
  let ?A = "take 3 DUMMY_AGENTS"
  let ?R = "''run_2025-01-15T10:30:00''"
  let ?T1 = "projr (createTurnForRun host0 ?R 1 ?A DUMMY_POSTS)"
  let ?F1 = "projr (agentFeed host0 ?R 1 (selectAgents 1 ?A) DUMMY_POSTS (?A ! 1) 0)"
  let ?T0 = "projr (createTurnForRun host0 ?R 0 ?A [])"
  let ?F0 = "projr (agentFeed host0 ?R 0 (selectAgents 0 ?A) [] (?A ! 0) 0)"
  have bound: "\<forall>i < min (length ?A) 5. \<forall>site < 3.
      Date_now host0 ?R 1 i site + 1 * 60000 + 7000 \<le> 8640000000000000"
    by (simp add: host0_def)
  from feed_length_and_return [of host0 ?R 1 ?A DUMMY_POSTS] bound
  have "\<exists>turn'. createTurnForRun host0 ?R 1 ?A DUMMY_POSTS = Inr turn'" by blast
  then have nl1: "\<not> isl (createTurnForRun host0 ?R 1 ?A DUMMY_POSTS)"
    by (simp only: not_isl_iff)
  then have ret1: "createTurnForRun host0 ?R 1 ?A DUMMY_POSTS = Inr ?T1" by (rule Inr_projr)
  have "map_of (agentFeeds ?T1) ''@bob.tech'' = Some ?F1"
    using roster3_feed(2) [OF ret1, of 0] by simp
  then have mem1: "(''@bob.tech'', ?F1) \<in> set (agentFeeds ?T1)"
    by (simp only: feed_entry_lookup [OF ret1])
  have ne: "DUMMY_POSTS \<noteq> []" using length_DUMMY_POSTS by auto
  have "uri ` set DUMMY_POSTS = set (map uri DUMMY_POSTS)" by simp
  then have full: "[] \<notin> uri ` set DUMMY_POSTS" unfolding dummy_uris by simp
  from feed_length_and_return [of host0 ?R 1 ?A DUMMY_POSTS ?T1 "''@bob.tech''" ?F1] ret1 mem1 ne full
  have len1: "length (postUris ?F1) = 3" by blast
  have ret0: "createTurnForRun host0 ?R 0 ?A [] = Inr ?T0"
    by (rule Inr_projr, rule host0_returns) simp
  have "map_of (agentFeeds ?T0) ''@alice.bsky.social'' = Some ?F0"
    using roster3_feed(2) [OF ret0, of 0] by simp
  then have mem0: "(''@alice.bsky.social'', ?F0) \<in> set (agentFeeds ?T0)"
    by (simp only: feed_entry_lookup [OF ret0])
  from feed_length_and_return [of host0 ?R 0 ?A "[]" ?T0 "''@alice.bsky.social''" ?F0] ret0 mem0
  have len0: "postUris ?F0 = []" by blast
  from nl1 mem1 ne full len1 mem0 len0 show ?thesis by (intro conjI)
qed

text \<open>
  Claim C5 as stated fails in two ways. With a corpus of two posts the feed is not
  shorter: turn 0 of the first sample roster shows \<open>@alice.bsky.social\<close> the first post, the
  second and the first again. And a call can raise: at turn number 200000000000 the time to
  format lies beyond what a \<open>Date\<close> can hold, and the call ends in a \<open>RangeError\<close>.
\<close>

theorem feed_shorter_or_error_counterexample:
  "length (take 2 DUMMY_POSTS) = 2 \<and>
   \<not> isl (createTurnForRun host0 ''run_2025-01-15T10:30:00'' 0 (take 3 DUMMY_AGENTS) (take 2 DUMMY_POSTS)) \<and>
   (''@alice.bsky.social'',
    projr (agentFeed host0 ''run_2025-01-15T10:30:00'' 0 (selectAgents 0 (take 3 DUMMY_AGENTS))
             (take 2 DUMMY_POSTS) (take 3 DUMMY_AGENTS ! 0) 0))
     \<in> set (agentFeeds (projr
          (createTurnForRun host0 ''run_2025-01-15T10:30:00'' 0 (take 3 DUMMY_AGENTS) (take 2 DUMMY_POSTS)))) \<and>
   postUris
     (projr (agentFeed host0 ''run_2025-01-15T10:30:00'' 0 (selectAgents 0 (take 3 DUMMY_AGENTS))
               (take 2 DUMMY_POSTS) (take 3 DUMMY_AGENTS ! 0) 0)) =
     [''at://did:plc:example1/post1'', ''at://did:plc:example2/post2'', ''at://did:plc:example1/post1''] \<and>
   createTurnForRun host0 ''run_2025-01-15T10:30:00'' 200000000000 (take 3 DUMMY_AGENTS) DUMMY_POSTS =
     Inl RangeError"
proof -
  let ?A = "take 3 DUMMY_AGENTS"
  let ?R = "''run_2025-01-15T10:30:00''"
  let ?P = "take 2 DUMMY_POSTS"
  let ?T = "projr (createTurnForRun host0 ?R 0 ?A ?P)"
  let ?F = "projr (agentFeed host0 ?R 0 (selectAgents 0 ?A) ?P (?A ! 0) 0)"
  have len: "length ?P = 2" by (simp add: length_DUMMY_POSTS)
  have nl: "\<not> isl (createTurnForRun host0 ?R 0 ?A ?P)"
    by (rule host0_returns) simp
  then have ret: "createTurnForRun host0 ?R 0 ?A ?P = Inr ?T" by (rule Inr_projr)
  have nlf: "\<not> isl (agentFeed host0 ?R 0 (selectAgents 0 ?A) ?P (?A ! 0) 0)"
    using roster3_feed(1) [OF ret, of 0] by simp
  have "map_of (agentFeeds ?T) ''@alice.bsky.social'' = Some ?F"
    using roster3_feed(2) [OF ret, of 0] by simp
  then have mem: "(''@alice.bsky.social'', ?F) \<in> set (agentFeeds ?T)"
    by (simp only: feed_entry_lookup [OF ret])
  have ne: "?P \<noteq> []" using len by auto
  have "postUris ?F = feedPostUris 0 (selectAgents 0 ?A) 0 ?P"
    using nlf by (rule postUris_agentFeed)
  also have "\<dots> = [''at://did:plc:example1/post1'', ''at://did:plc:example2/post2'',
      ''at://did:plc:example1/post1'']"
    unfolding feedPostUris_window [OF ne] len by (simp add: dummy_uri_nth)
  finally have uris: "postUris ?F = [''at://did:plc:example1/post1'', ''at://did:plc:example2/post2'',
      ''at://did:plc:example1/post1'']" .
  have A: "?A \<noteq> []" using roster3_length by auto
  have throws: "createTurnForRun host0 ?R 200000000000 ?A DUMMY_POSTS = Inl RangeError"
    by (rule createTurnForRun_throws [OF A]) (simp add: host0_def)
  from len nl mem uris throws show ?thesis by (intro conjI)
qed

text \<open>
  Claim C9. The URIs of \<open>DUMMY_POSTS\<close> are pairwise distinct, \<open>getPostByUri\<close> returns each
  post of the corpus for its own URI, and it returns \<open>undefined\<close> for every other string.
\<close>

theorem getPostByUri_roundtrip:
  "distinct (map uri DUMMY_POSTS) \<and>
   (\<forall>p \<in> set DUMMY_POSTS. getPostByUri (uri p) = Some p) \<and>
   (\<forall>u. u \<notin> uri ` set DUMMY_POSTS \<longrightarrow> getPostByUri u = None)"
proof -
  have d: "distinct (map uri DUMMY_POSTS)"
    unfolding dummy_uris by simp
  have "getPostByUri (uri p) = Some p" if "p \<in> set DUMMY_POSTS" for p
    unfolding getPostByUri_def using d that by (rule find_unique)
  moreover have "getPostByUri u = None" if "u \<notin> uri ` set DUMMY_POSTS" for u
    unfolding getPostByUri_def using that by (auto simp: find_None_iff)
  ultimately show ?thesis using d by blast
qed

theorem getPostByUri_roundtrip_witness:
  "DUMMY_POSTS ! 3 \<in> set DUMMY_POSTS \<and>
   uri (DUMMY_POSTS ! 3) = ''at://did:plc:example4/post4'' \<and>
   getPostByUri ''at://did:plc:example4/post4'' = Some (DUMMY_POSTS ! 3) \<and>
   ''at://did:plc:example11/post11'' \<notin> uri ` set DUMMY_POSTS \<and>
   getPostByUri ''at://did:plc:example11/post11'' = None"
proof -
  have mem: "DUMMY_POSTS ! 3 \<in> set DUMMY_POSTS"
    by (rule nth_mem) (simp add: length_DUMMY_POSTS)
  have u: "uri (DUMMY_POSTS ! 3) = ''at://did:plc:example4/post4''"
    using arg_cong [OF dummy_uris, of "\<lambda>us. us ! 3"] by (simp add: length_DUMMY_POSTS)
  have "uri ` set DUMMY_POSTS = set (map uri DUMMY_POSTS)" by simp
  then have non: "''at://did:plc:example11/post11'' \<notin> uri ` set DUMMY_POSTS"
    unfolding dummy_uris by simp
  from getPostByUri_roundtrip mem non
  have "getPostByUri (uri (DUMMY_POSTS ! 3)) = Some (DUMMY_POSTS ! 3)"
    and "getPostByUri ''at://did:plc:example11/post11'' = None"
    by blast+
  with mem u non show ?thesis by simp
qed

text \<open>
  Claim C10. \<open>handleConfigSubmit\<close> puts exactly one new run in front of the run list, with
  the submitted numbers of turns and agents and the status \<open>running\<close>; the runs that were
  there follow unchanged and in their order.
\<close>

theorem handleConfigSubmit_prepends_run:
  "runs (handleConfigSubmit h now config s) =
     \<lparr>Run.runId = ''run_'' @ toISOString h now,
      Run.createdAt = toISOString h now,
      totalTurns = numTurns config,
      totalAgents = numAgents config,
      status = Running\<rparr> # runs s"
  by (simp add: handleConfigSubmit_def Let_def)

section \<open>Who is selected and who follows whom\<close>

lemma likeActions_Inr:
  assumes "likeActions h r t uris ag i = Inr likes" and "a \<in> set likes"
  shows "type a = Like"
  using assms by (auto simp: likeActions_def bind_error_eq_Inr split: if_splits)

lemma followActions_Inr:
  assumes "followActions h r t sel ag i = Inr follows" and "a \<in> set follows"
  shows "i = 0 \<and> 1 < length sel \<and> t mod 3 = 0 \<and>
         AgentAction.agentHandle a = handle ag \<and> userId a = Some (handle (sel ! 1))"
  using assms by (auto simp: followActions_def bind_error_eq_Inr split: if_splits)

lemma followActions_length:
  "followActions h r t sel ag i = Inr follows \<Longrightarrow> length follows \<le> 1"
  by (auto simp: followActions_def bind_error_eq_Inr split: if_splits)

lemma agentActionList_Inr:
  assumes "agentActionList h r t sel ps ag i = Inr acts"
  shows "\<exists>likes follows. likeActions h r t (feedPostUris t sel i ps) ag i = Inr likes \<and>
           followActions h r t sel ag i = Inr follows \<and> acts = likes @ follows"
  using assms by (auto simp: agentActionList_def Let_def bind_error_eq_Inr)

lemma follow_in_actions:
  assumes "agentActionList h r t sel ps ag i = Inr acts" and "a \<in> set acts" and "type a = Follow"
  shows "i = 0 \<and> 1 < length sel \<and> t mod 3 = 0 \<and>
         AgentAction.agentHandle a = handle ag \<and> userId a = Some (handle (sel ! 1))"
proof -
  from agentActionList_Inr [OF assms(1)] obtain likes follows where
    l: "likeActions h r t (feedPostUris t sel i ps) ag i = Inr likes"
    and f: "followActions h r t sel ag i = Inr follows" and acts: "acts = likes @ follows"
    by blast
  have "a \<notin> set likes" using likeActions_Inr [OF l] assms(3) by auto
  with assms(2) acts have "a \<in> set follows" by simp
  with f show ?thesis by (rule followActions_Inr)
qed

lemma upt5: "[0..<5] = [0, 1, 2, 3, 4]"
  by (simp add: upt_rec)

lemma feed_keys:
  assumes ret: "createTurnForRun h r t agents ps = Inr turn"
  shows "set (Object_keys (agentFeeds turn)) =
     (\<lambda>i. handle (agents ! ((t + i) mod length agents))) ` {0..<min (length agents) 5}"
proof -
  let ?T = "agentFeeds turn"
  have "k \<in> fst ` set ?T \<longleftrightarrow>
          k \<in> (\<lambda>i. handle (agents ! ((t + i) mod length agents))) ` {0..<min (length agents) 5}" for k
  proof
    assume "k \<in> fst ` set ?T"
    then obtain f where "(k, f) \<in> set ?T" by auto
    then have "map_of ?T k = Some f" by (simp only: feed_entry_lookup [OF ret])
    from feed_lookup [OF ret this] show
      "k \<in> (\<lambda>i. handle (agents ! ((t + i) mod length agents))) ` {0..<min (length agents) 5}"
      by auto
  next
    assume "k \<in> (\<lambda>i. handle (agents ! ((t + i) mod length agents))) ` {0..<min (length agents) 5}"
    then obtain i where i: "i < min (length agents) 5"
      and k: "k = handle (agents ! ((t + i) mod length agents))" by auto
    from feed_key_present [OF ret i] obtain f where "map_of ?T k = Some f"
      unfolding k by blast
    then have "(k, f) \<in> set ?T" by (rule map_of_SomeD)
    then show "k \<in> fst ` set ?T" by force
  qed
  then show ?thesis unfolding Object_keys_def by auto
qed

lemma rotation_covers:
  fixes n :: nat
  shows "(\<lambda>i. (t + i) mod n) ` {0..<n} = {0..<n}"
proof (rule endo_inj_surj)
  show "finite {0..<n}" by simp
  show "(\<lambda>i. (t + i) mod n) ` {0..<n} \<subseteq> {0..<n}" by auto
  show "inj_on (\<lambda>i. (t + i) mod n) {0..<n}"
    by (rule inj_onI) (auto dest: mod_shift_inj)
qed

text \<open>
  Claim C8. With a roster of at least two agents whose handles are pairwise distinct, every
  follow action in a turn returned by \<open>createTurnForRun\<close> names a target, and the
  target differs from the acting agent's handle.
\<close>


theorem no_self_follow:
  assumes "2 \<le> length agents" and "distinct (map handle agents)"
    and "createTurnForRun h r t agents ps = Inr turn"
    and "(k, acts) \<in> set (agentActions turn)"
    and "a \<in> set acts" and "type a = Follow"
  shows "userId a \<noteq> None \<and> userId a \<noteq> Some (AgentAction.agentHandle a)"
proof -
  let ?n = "length agents"
  from assms(4) have "map_of (agentActions turn) k = Some acts"
    by (simp only: actions_entry_lookup [OF assms(3)])
  from actions_lookup [OF assms(3) this] obtain i where i: "i < min ?n 5"
    and acts: "agentActionList h r t (selectAgents t agents) ps (agents ! ((t + i) mod ?n)) i = Inr acts"
    by blast
  from follow_in_actions [OF acts assms(5) assms(6)]
  have i0: "i = 0"
    and actor: "AgentAction.agentHandle a = handle (agents ! ((t + i) mod ?n))"
    and target: "userId a = Some (handle (selectAgents t agents ! 1))"
    by simp_all
  have one: "1 < min ?n 5" using assms(1) by simp
  have zero: "0 < min ?n 5" using assms(1) by (cases agents) auto
  have sel1: "selectAgents t agents ! 1 = agents ! ((t + 1) mod ?n)"
    using one by (rule nth_selectAgents)
  have "handle (agents ! ((t + 0) mod ?n)) \<noteq> handle (agents ! ((t + 1) mod ?n))"
    using rotation_index_unique [OF assms(2) zero one, of t] by auto
  then show ?thesis using actor target i0 sel1 by simp
qed

theorem no_self_follow_witness:
  "2 \<le> length (take 3 DUMMY_AGENTS) \<and> distinct (map handle (take 3 DUMMY_AGENTS)) \<and>
   \<not> isl (createTurnForRun host0 ''run_2025-01-15T10:30:00'' 3 (take 3 DUMMY_AGENTS) DUMMY_POSTS) \<and>
   (''@alice.bsky.social'',
    projr (agentActionList host0 ''run_2025-01-15T10:30:00'' 3 (selectAgents 3 (take 3 DUMMY_AGENTS))
      DUMMY_POSTS (take 3 DUMMY_AGENTS ! 0) 0))
     \<in> set (agentActions (projr
              (createTurnForRun host0 ''run_2025-01-15T10:30:00'' 3 (take 3 DUMMY_AGENTS) DUMMY_POSTS))) \<and>
   hd (projr (agentActionList host0 ''run_2025-01-15T10:30:00'' 3 (selectAgents 3 (take 3 DUMMY_AGENTS))
         DUMMY_POSTS (take 3 DUMMY_AGENTS ! 0) 0))
     \<in> set (projr (agentActionList host0 ''run_2025-01-15T10:30:00'' 3
              (selectAgents 3 (take 3 DUMMY_AGENTS)) DUMMY_POSTS (take 3 DUMMY_AGENTS ! 0) 0)) \<and>
   type (hd (projr (agentActionList host0 ''run_2025-01-15T10:30:00'' 3
         (selectAgents 3 (take 3 DUMMY_AGENTS)) DUMMY_POSTS (take 3 DUMMY_AGENTS ! 0) 0))) = Follow \<and>
   userId (hd (projr (agentActionList host0 ''run_2025-01-15T10:30:00'' 3
         (selectAgents 3 (take 3 DUMMY_AGENTS)) DUMMY_POSTS (take 3 DUMMY_AGENTS ! 0) 0)))
     \<noteq> Some (AgentAction.agentHandle
          (hd (projr (agentActionList host0 ''run_2025-01-15T10:30:00'' 3
             (selectAgents 3 (take 3 DUMMY_AGENTS)) DUMMY_POSTS (take 3 DUMMY_AGENTS ! 0) 0))))"
proof -
  let ?A = "take 3 DUMMY_AGENTS"
  let ?R = "''run_2025-01-15T10:30:00''"
  let ?T = "projr (createTurnForRun host0 ?R 3 ?A DUMMY_POSTS)"
  let ?acts = "projr (agentActionList host0 ?R 3 (selectAgents 3 ?A) DUMMY_POSTS (?A ! 0) 0)"
  have len: "2 \<le> length ?A" by (simp add: length_DUMMY_AGENTS)
  have nl: "\<not> isl (createTurnForRun host0 ?R 3 ?A DUMMY_POSTS)"
    by (rule host0_returns) simp
  then have ret: "createTurnForRun host0 ?R 3 ?A DUMMY_POSTS = Inr ?T" by (rule Inr_projr)
  have "map_of (agentActions ?T) ''@alice.bsky.social'' = Some ?acts"
    using roster3_actions(2) [OF ret, of 0] by simp
  then have mem: "(''@alice.bsky.social'', ?acts) \<in> set (agentActions ?T)"
    by (simp only: actions_entry_lookup [OF ret])
  have sel: "1 < length (selectAgents 3 ?A)"
    by (simp add: length_selectAgents length_DUMMY_AGENTS)
  have acts: "?acts \<noteq> [] \<and> type (hd ?acts) = Follow"
    using sel
    by (simp add: agentActionList_def likeActions_def followActions_def
          new_Date_toISOString_def host0_def Let_def)
  then have hd: "hd ?acts \<in> set ?acts" by simp
  from no_self_follow [OF len roster3_distinct ret mem hd] acts len roster3_distinct nl mem hd
  show ?thesis by blast
qed

text \<open>
  Claim C3, as the code has it. In a turn that is returned, the keys of \<open>agentFeeds\<close> are exactly the handles of the
  selected agents, the roster members at positions \<open>(turnNumber + i) mod n\<close> for
  \<open>i < min n 5\<close>. So every agent of a roster of at most five agents receives a feed that
  turn; a larger roster has only five of its agents served per turn.
\<close>


theorem selected_agents_get_feeds:
  assumes ret: "createTurnForRun h r t agents ps = Inr turn"
  shows "set (Object_keys (agentFeeds turn)) =
     (\<lambda>i. handle (agents ! ((t + i) mod length agents))) ` {0..<min (length agents) 5} \<and>
   (length agents \<le> 5 \<longrightarrow> handle ` set agents \<subseteq> set (Object_keys (agentFeeds turn)))"
proof (intro conjI impI)
  show "set (Object_keys (agentFeeds turn)) =
     (\<lambda>i. handle (agents ! ((t + i) mod length agents))) ` {0..<min (length agents) 5}"
    using ret by (rule feed_keys)
next
  let ?n = "length agents"
  assume n: "?n \<le> 5"
  have "handle ` set agents = handle ` set (map ((!) agents) [0..<?n])"
    by (simp only: map_nth)
  also have "\<dots> = (\<lambda>j. handle (agents ! j)) ` {0..<?n}"
    by (simp add: image_image)
  also have "\<dots> = (\<lambda>j. handle (agents ! j)) ` ((\<lambda>i. (t + i) mod ?n) ` {0..<?n})"
    by (simp only: rotation_covers)
  also have "\<dots> = (\<lambda>i. handle (agents ! ((t + i) mod ?n))) ` {0..<min ?n 5}"
    by (simp only: image_image min_absorb1 [OF n])
  finally have "handle ` set agents =
      (\<lambda>i. handle (agents ! ((t + i) mod ?n))) ` {0..<min ?n 5}" .
  then show "handle ` set agents \<subseteq> set (Object_keys (agentFeeds turn))"
    unfolding feed_keys [OF ret] by simp
qed

theorem selected_agents_get_feeds_witness:
  "\<not> isl (createTurnForRun host0 ''run_2025-01-15T10:30:00'' 1 (take 3 DUMMY_AGENTS) DUMMY_POSTS) \<and>
   length (take 3 DUMMY_AGENTS) \<le> 5 \<and>
   handle ` set (take 3 DUMMY_AGENTS) \<subseteq>
     set (Object_keys (agentFeeds (projr
       (createTurnForRun host0 ''run_2025-01-15T10:30:00'' 1 (take 3 DUMMY_AGENTS) DUMMY_POSTS))))"
proof -
  let ?C = "createTurnForRun host0 ''run_2025-01-15T10:30:00'' 1 (take 3 DUMMY_AGENTS) DUMMY_POSTS"
  have len: "length (take 3 DUMMY_AGENTS) \<le> 5" by simp
  have nl: "\<not> isl ?C" by (rule host0_returns) simp
  then have ret: "?C = Inr (projr ?C)" by (rule Inr_projr)
  have "length (take 3 DUMMY_AGENTS) \<le> 5 \<longrightarrow>
   handle ` set (take 3 DUMMY_AGENTS) \<subseteq> set (Object_keys (agentFeeds (projr ?C)))"
    using selected_agents_get_feeds [OF ret] by (rule conjunct2)
  then have "handle ` set (take 3 DUMMY_AGENTS) \<subseteq> set (Object_keys (agentFeeds (projr ?C)))"
    using len by (rule mp)
  with nl len show ?thesis by (intro conjI)
qed

text \<open>
  Claim C3 as stated fails for a roster of more than five agents: with the eight sample
  agents, whose handles are pairwise distinct, turn 0 has no feed for the sixth agent.
\<close>


theorem every_agent_gets_feed_counterexample:
  "DUMMY_AGENTS \<noteq> [] \<and> distinct (map handle DUMMY_AGENTS) \<and>
   \<not> isl (createTurnForRun host0 ''run_2025-01-15T10:30:00'' 0 DUMMY_AGENTS DUMMY_POSTS) \<and>
   DUMMY_AGENTS ! 5 \<in> set DUMMY_AGENTS \<and>
   handle (DUMMY_AGENTS ! 5) \<notin>
     set (Object_keys (agentFeeds (projr
       (createTurnForRun host0 ''run_2025-01-15T10:30:00'' 0 DUMMY_AGENTS DUMMY_POSTS))))"
proof -
  let ?C = "createTurnForRun host0 ''run_2025-01-15T10:30:00'' 0 DUMMY_AGENTS DUMMY_POSTS"
  have ne: "DUMMY_AGENTS \<noteq> []" using length_DUMMY_AGENTS by auto
  have d: "distinct (map handle DUMMY_AGENTS)" unfolding dummy_handles by simp
  have nl: "\<not> isl ?C" by (rule host0_returns) simp
  then have ret: "?C = Inr (projr ?C)" by (rule Inr_projr)
  have mem: "DUMMY_AGENTS ! 5 \<in> set DUMMY_AGENTS"
    by (rule nth_mem) (simp add: length_DUMMY_AGENTS)
  have "{0..<min (length DUMMY_AGENTS) 5} = set [0..<5]"
    by (simp add: length_DUMMY_AGENTS)
  then have "{0..<min (length DUMMY_AGENTS) 5} = set [0, 1, 2, 3, 4]"
    by (simp only: upt5)
  then have "set (Object_keys (agentFeeds (projr ?C))) =
     (\<lambda>i. handle (DUMMY_AGENTS ! ((0 + i) mod length DUMMY_AGENTS))) ` set [0, 1, 2, 3, 4]"
    by (simp only: feed_keys [OF ret])
  then have "handle (DUMMY_AGENTS ! 5) \<notin> set (Object_keys (agentFeeds (projr ?C)))"
    by (simp add: length_DUMMY_AGENTS dummy_handle_nth)
  with ne d nl mem show ?thesis by (intro conjI)
qed

section \<open>Feeds and follows across the turns of a run\<close>

lemma window_index_unique:
  assumes d: "distinct (map uri ps)"
    and i: "i < length ps" and j: "j < length ps"
    and eq: "uri (ps ! ((s + i) mod length ps)) = uri (ps ! ((s + j) mod length ps))"
  shows "i = j"
proof -
  let ?P = "length ps"
  from i have P: "0 < ?P" by (cases ps) auto
  have "(s + i) mod ?P = (s + j) mod ?P"
    using nth_eq_iff_index_eq [OF d, of "(s + i) mod ?P" "(s + j) mod ?P"] eq P by simp
  with i j show ?thesis by (rule mod_shift_inj)
qed

lemma window_distinct:
  assumes "3 \<le> length ps" and "distinct (map uri ps)"
  shows "distinct (map (\<lambda>j. uri (ps ! ((s + j) mod length ps))) [0, 1, 2])"
proof -
  have lt: "0 < length ps" "1 < length ps" "2 < length ps"
    using assms(1) by linarith+
  have "uri (ps ! ((s + 0) mod length ps)) \<noteq> uri (ps ! ((s + 1) mod length ps))"
    using window_index_unique [OF assms(2) lt(1) lt(2), of s] by auto
  moreover have "uri (ps ! ((s + 0) mod length ps)) \<noteq> uri (ps ! ((s + 2) mod length ps))"
    using window_index_unique [OF assms(2) lt(1) lt(3), of s] by auto
  moreover have "uri (ps ! ((s + 1) mod length ps)) \<noteq> uri (ps ! ((s + 2) mod length ps))"
    using window_index_unique [OF assms(2) lt(2) lt(3), of s] by auto
  ultimately show ?thesis by simp
qed

lemma roster3_window:
  "feedPostUris t (selectAgents t (take 3 DUMMY_AGENTS)) i DUMMY_POSTS =
     filter (\<lambda>u. u \<noteq> [])
       (map (\<lambda>j. uri (DUMMY_POSTS ! ((t * 3 + i + j) mod 10))) [0, 1, 2])"
proof -
  have "DUMMY_POSTS \<noteq> []" using length_DUMMY_POSTS by auto
  from feedPostUris_window [OF this, of t "selectAgents t (take 3 DUMMY_AGENTS)" i]
  show ?thesis by (simp only: length_selectAgents roster3_length length_DUMMY_POSTS) simp
qed

lemma dummy_createdAt:
  "map Post.createdAt DUMMY_POSTS =
     [''2025-01-15T10:00:00'', ''2025-01-15T11:30:00'', ''2025-01-15T13:00:00'',
      ''2025-01-15T14:15:00'', ''2025-01-15T15:30:00'', ''2025-01-15T16:00:00'',
      ''2025-01-15T17:20:00'', ''2025-01-15T18:45:00'', ''2025-01-16T09:00:00'',
      ''2025-01-16T10:30:00'']"
  by (simp add: DUMMY_POSTS_def)

lemma dummy_authors:
  "map authorHandle DUMMY_POSTS =
     [''@alice.bsky.social'', ''@bob.tech'', ''@charlie.dev'', ''@diana.design'',
      ''@edward.data'', ''@fiona.frontend'', ''@george.backend'', ''@hannah.ai'',
      ''@alice.bsky.social'', ''@bob.tech'']"
  by (simp add: DUMMY_POSTS_def)

lemma dummy_createdAt_nth:
  assumes "j < 10"
  shows "Post.createdAt (DUMMY_POSTS ! j) =
     [''2025-01-15T10:00:00'', ''2025-01-15T11:30:00'', ''2025-01-15T13:00:00'',
      ''2025-01-15T14:15:00'', ''2025-01-15T15:30:00'', ''2025-01-15T16:00:00'',
      ''2025-01-15T17:20:00'', ''2025-01-15T18:45:00'', ''2025-01-16T09:00:00'',
      ''2025-01-16T10:30:00''] ! j"
proof -
  have "Post.createdAt (DUMMY_POSTS ! j) = map Post.createdAt DUMMY_POSTS ! j"
    using assms by (simp add: length_DUMMY_POSTS)
  then show ?thesis by (simp only: dummy_createdAt)
qed

lemma dummy_author_nth:
  assumes "j < 10"
  shows "authorHandle (DUMMY_POSTS ! j) =
     [''@alice.bsky.social'', ''@bob.tech'', ''@charlie.dev'', ''@diana.design'',
      ''@edward.data'', ''@fiona.frontend'', ''@george.backend'', ''@hannah.ai'',
      ''@alice.bsky.social'', ''@bob.tech''] ! j"
proof -
  have "authorHandle (DUMMY_POSTS ! j) = map authorHandle DUMMY_POSTS ! j"
    using assms by (simp add: length_DUMMY_POSTS)
  then show ?thesis by (simp only: dummy_authors)
qed

lemma follows_in_actionList:
  assumes "agentActionList h r t sel ps ag i = Inr acts"
  shows "length (filter (\<lambda>a. type a = Follow \<and> userId a = Some x) acts) =
     (if t mod 3 = 0 \<and> i = 0 \<and> 1 < length sel \<and> handle (sel ! 1) = x then 1 else 0)"
proof -
  from agentActionList_Inr [OF assms] obtain likes follows where
    l: "likeActions h r t (feedPostUris t sel i ps) ag i = Inr likes"
    and f: "followActions h r t sel ag i = Inr follows" and acts: "acts = likes @ follows"
    by blast
  have "filter (\<lambda>a. type a = Follow \<and> userId a = Some x) likes = []"
    using likeActions_Inr [OF l] by (auto simp: filter_empty_conv)
  moreover have "length (filter (\<lambda>a. type a = Follow \<and> userId a = Some x) follows) =
     (if t mod 3 = 0 \<and> i = 0 \<and> 1 < length sel \<and> handle (sel ! 1) = x then 1 else 0)"
    using f by (auto simp: followActions_def bind_error_eq_Inr split: if_splits)
  ultimately show ?thesis by (simp add: acts)
qed

lemma follow_count_actionList:
  assumes "agentActionList h r t sel ps ag i = Inr acts"
  shows "length (filter (\<lambda>a. type a = Follow) acts) \<le> 1"
proof -
  from agentActionList_Inr [OF assms] obtain likes follows where
    l: "likeActions h r t (feedPostUris t sel i ps) ag i = Inr likes"
    and f: "followActions h r t sel ag i = Inr follows" and acts: "acts = likes @ follows"
    by blast
  have "filter (\<lambda>a. type a = Follow) likes = []"
    using likeActions_Inr [OF l] by (auto simp: filter_empty_conv)
  moreover have "length (filter (\<lambda>a. type a = Follow) follows) \<le> 1"
    using length_filter_le [of "\<lambda>a. type a = Follow" follows] followActions_length [OF f]
    by (rule order_trans)
  ultimately show ?thesis by (simp add: acts)
qed

lemma sequence_returns:
  "(\<And>m. m \<in> set ms \<Longrightarrow> \<not> isl m) \<Longrightarrow> sequence_error ms = Inr (map projr ms)"
proof (induction ms)
  case Nil
  show ?case by simp
next
  case (Cons m ms)
  from Cons.prems [of m] obtain v where m: "m = Inr v" by (auto simp: not_isl_iff)
  have "sequence_error ms = Inr (map projr ms)"
    by (rule Cons.IH) (simp add: Cons.prems)
  then show ?case by (simp add: m)
qed

lemma upt2: "[0..<2] = [0, 1]"
  by (simp add: upt_rec)

lemma upt4: "[0..<4] = [0, 1, 2, 3]"
  by (simp add: upt_rec)

text \<open>
  Claim C1, as the code has it. When the corpus has at least three posts with pairwise
  distinct URIs, no feed of a turn returned by \<open>createTurnForRun\<close>
  lists a URI twice. The generator
  keeps no record of what an agent was shown in earlier turns.
\<close>


theorem feed_has_no_duplicate_uri:
  assumes "3 \<le> length ps" and "distinct (map uri ps)"
    and "createTurnForRun h r t agents ps = Inr turn"
    and "(k, f) \<in> set (agentFeeds turn)"
  shows "distinct (postUris f)"
proof -
  from assms(4) have "map_of (agentFeeds turn) k = Some f"
    by (simp only: feed_entry_lookup [OF assms(3)])
  from feed_lookup [OF assms(3) this] obtain i a where
    "agentFeed h r t (selectAgents t agents) ps a i = Inr f"
    by blast
  then have uris: "postUris f = feedPostUris t (selectAgents t agents) i ps"
    by (rule agentFeed_Inr)
  from assms(1) have ne: "ps \<noteq> []" by auto
  show ?thesis
    unfolding uris feedPostUris_window [OF ne]
    by (rule distinct_filter) (rule window_distinct [OF assms(1) assms(2)])
qed

theorem feed_has_no_duplicate_uri_witness:
  "3 \<le> length DUMMY_POSTS \<and> distinct (map uri DUMMY_POSTS) \<and>
   \<not> isl (createTurnForRun host0 ''run_2025-01-15T10:30:00'' 1 (take 3 DUMMY_AGENTS) DUMMY_POSTS) \<and>
   (''@bob.tech'',
    projr (agentFeed host0 ''run_2025-01-15T10:30:00'' 1 (selectAgents 1 (take 3 DUMMY_AGENTS))
      DUMMY_POSTS (take 3 DUMMY_AGENTS ! 1) 0))
     \<in> set (agentFeeds (projr
              (createTurnForRun host0 ''run_2025-01-15T10:30:00'' 1 (take 3 DUMMY_AGENTS) DUMMY_POSTS))) \<and>
   distinct (postUris
     (projr (agentFeed host0 ''run_2025-01-15T10:30:00'' 1 (selectAgents 1 (take 3 DUMMY_AGENTS))
        DUMMY_POSTS (take 3 DUMMY_AGENTS ! 1) 0)))"
proof -
  let ?A = "take 3 DUMMY_AGENTS"
  let ?R = "''run_2025-01-15T10:30:00''"
  let ?T = "projr (createTurnForRun host0 ?R 1 ?A DUMMY_POSTS)"
  let ?F = "projr (agentFeed host0 ?R 1 (selectAgents 1 ?A) DUMMY_POSTS (?A ! 1) 0)"
  have len: "3 \<le> length DUMMY_POSTS" by (simp add: length_DUMMY_POSTS)
  have d: "distinct (map uri DUMMY_POSTS)" unfolding dummy_uris by simp
  have nl: "\<not> isl (createTurnForRun host0 ?R 1 ?A DUMMY_POSTS)"
    by (rule host0_returns) simp
  then have ret: "createTurnForRun host0 ?R 1 ?A DUMMY_POSTS = Inr ?T" by (rule Inr_projr)
  have "map_of (agentFeeds ?T) ''@bob.tech'' = Some ?F"
    using roster3_feed(2) [OF ret, of 0] by simp
  then have mem: "(''@bob.tech'', ?F) \<in> set (agentFeeds ?T)"
    by (simp only: feed_entry_lookup [OF ret])
  from feed_has_no_duplicate_uri [OF len d ret mem] len d nl mem show ?thesis by (intro conjI)
qed

text \<open>
  Claim C1 as stated fails on the first sample run: over turns 0 and 1, with the first
  three sample agents and the sample corpus, the fourth post is shown to \<open>@bob.tech\<close> in
  both turns.
\<close>


theorem no_repeat_across_turns_counterexample:
  "take 3 DUMMY_AGENTS \<noteq> [] \<and>
   \<not> isl (runTurns host0 ''run_2025-01-15T10:30:00'' 2 (take 3 DUMMY_AGENTS) DUMMY_POSTS) \<and>
   shownUris (projr (runTurns host0 ''run_2025-01-15T10:30:00'' 2 (take 3 DUMMY_AGENTS) DUMMY_POSTS))
     ''@bob.tech'' =
     [''at://did:plc:example2/post2'', ''at://did:plc:example3/post3'', ''at://did:plc:example4/post4'',
      ''at://did:plc:example4/post4'', ''at://did:plc:example5/post5'', ''at://did:plc:example6/post6''] \<and>
   \<not> distinct
     (shownUris (projr (runTurns host0 ''run_2025-01-15T10:30:00'' 2 (take 3 DUMMY_AGENTS) DUMMY_POSTS))
        ''@bob.tech'')"
proof -
  let ?A = "take 3 DUMMY_AGENTS"
  let ?R = "''run_2025-01-15T10:30:00''"
  let ?C = "\<lambda>t. createTurnForRun host0 ?R t ?A DUMMY_POSTS"
  have ne: "?A \<noteq> []" using roster3_length by auto
  have nl0: "\<not> isl (?C 0)" by (rule host0_returns) simp
  have nl1: "\<not> isl (?C 1)" by (rule host0_returns) simp
  note ret0 = Inr_projr [OF nl0] and ret1 = Inr_projr [OF nl1]
  have "runTurns host0 ?R 2 ?A DUMMY_POSTS = sequence_error [?C 0, ?C 1]"
    by (simp add: runTurns_def upt2)
  also have "\<dots> = Inr (map projr [?C 0, ?C 1])"
    by (rule sequence_returns) (use nl0 nl1 in auto)
  finally have r: "runTurns host0 ?R 2 ?A DUMMY_POSTS = Inr [projr (?C 0), projr (?C 1)]"
    by simp
  then have nl: "\<not> isl (runTurns host0 ?R 2 ?A DUMMY_POSTS)" by simp
  have f0: "map_option postUris (map_of (agentFeeds (projr (?C 0))) ''@bob.tech'') =
      Some [''at://did:plc:example2/post2'', ''at://did:plc:example3/post3'', ''at://did:plc:example4/post4'']"
    using roster3_feed [OF ret0, of 1]
    by (simp add: postUris_agentFeed roster3_window dummy_uri_nth)
  have f1: "map_option postUris (map_of (agentFeeds (projr (?C 1))) ''@bob.tech'') =
      Some [''at://did:plc:example4/post4'', ''at://did:plc:example5/post5'', ''at://did:plc:example6/post6'']"
    using roster3_feed [OF ret1, of 0]
    by (simp add: postUris_agentFeed roster3_window dummy_uri_nth)
  have s: "shownUris (projr (runTurns host0 ?R 2 ?A DUMMY_POSTS)) ''@bob.tech'' =
     [''at://did:plc:example2/post2'', ''at://did:plc:example3/post3'', ''at://did:plc:example4/post4'',
      ''at://did:plc:example4/post4'', ''at://did:plc:example5/post5'', ''at://did:plc:example6/post6'']"
    unfolding shownUris_def r sum.sel List.map_filter_simps f0 f1 by simp
  have "\<not> distinct
     (shownUris (projr (runTurns host0 ?R 2 ?A DUMMY_POSTS)) ''@bob.tech'')"
    unfolding s by simp
  with ne nl s show ?thesis by (intro conjI)
qed

text \<open>
  Claim C2, as the code has it. Every feed of a turn returned for a non-empty corpus belongs to a
  selected agent at some position \<open>i\<close> and lists, in corpus order with wrap-around, the
  non-empty URIs of the three posts at indices
  \<open>(turnNumber * numSelected + i + j) mod |allPosts|\<close> for \<open>j = 0, 1, 2\<close>.
\<close>


theorem feed_is_corpus_window:
  assumes "createTurnForRun h r t agents ps = Inr turn"
    and "(k, f) \<in> set (agentFeeds turn)" and "ps \<noteq> []"
  shows "\<exists>i < min (length agents) 5.
           k = handle (agents ! ((t + i) mod length agents)) \<and>
           postUris f =
             filter (\<lambda>u. u \<noteq> [])
               (map (\<lambda>j. uri (ps ! ((t * min (length agents) 5 + i + j) mod length ps))) [0, 1, 2])"
proof -
  from assms(2) have "map_of (agentFeeds turn) k = Some f"
    by (simp only: feed_entry_lookup [OF assms(1)])
  from feed_lookup [OF assms(1) this] obtain i where i: "i < min (length agents) 5"
    and k: "k = handle (agents ! ((t + i) mod length agents))"
    and f: "agentFeed h r t (selectAgents t agents) ps (agents ! ((t + i) mod length agents)) i = Inr f"
    by blast
  have "postUris f =
          filter (\<lambda>u. u \<noteq> [])
            (map (\<lambda>j. uri (ps ! ((t * min (length agents) 5 + i + j) mod length ps))) [0, 1, 2])"
    unfolding agentFeed_Inr(1) [OF f] feedPostUris_window [OF assms(3)] length_selectAgents ..
  with i k show ?thesis by blast
qed

theorem feed_is_corpus_window_witness:
  "\<not> isl (createTurnForRun host0 ''run_2025-01-15T10:30:00'' 0 (take 3 DUMMY_AGENTS) DUMMY_POSTS) \<and>
   (''@alice.bsky.social'',
    projr (agentFeed host0 ''run_2025-01-15T10:30:00'' 0 (selectAgents 0 (take 3 DUMMY_AGENTS))
      DUMMY_POSTS (take 3 DUMMY_AGENTS ! 0) 0))
     \<in> set (agentFeeds (projr
              (createTurnForRun host0 ''run_2025-01-15T10:30:00'' 0 (take 3 DUMMY_AGENTS) DUMMY_POSTS))) \<and>
   DUMMY_POSTS \<noteq> [] \<and>
   (\<exists>i < min (length (take 3 DUMMY_AGENTS)) 5.
      ''@alice.bsky.social'' = handle (take 3 DUMMY_AGENTS ! ((0 + i) mod length (take 3 DUMMY_AGENTS))) \<and>
      postUris (projr (agentFeed host0 ''run_2025-01-15T10:30:00'' 0
                  (selectAgents 0 (take 3 DUMMY_AGENTS)) DUMMY_POSTS (take 3 DUMMY_AGENTS ! 0) 0)) =
        filter (\<lambda>u. u \<noteq> [])
          (map (\<lambda>j. uri (DUMMY_POSTS !
                  ((0 * min (length (take 3 DUMMY_AGENTS)) 5 + i + j) mod length DUMMY_POSTS)))
             [0, 1, 2]))"
proof -
  let ?A = "take 3 DUMMY_AGENTS"
  let ?R = "''run_2025-01-15T10:30:00''"
  let ?T = "projr (createTurnForRun host0 ?R 0 ?A DUMMY_POSTS)"
  let ?F = "projr (agentFeed host0 ?R 0 (selectAgents 0 ?A) DUMMY_POSTS (?A ! 0) 0)"
  have ne: "DUMMY_POSTS \<noteq> []" using length_DUMMY_POSTS by auto
  have nl: "\<not> isl (createTurnForRun host0 ?R 0 ?A DUMMY_POSTS)"
    by (rule host0_returns) simp
  then have ret: "createTurnForRun host0 ?R 0 ?A DUMMY_POSTS = Inr ?T" by (rule Inr_projr)
  have "map_of (agentFeeds ?T) ''@alice.bsky.social'' = Some ?F"
    using roster3_feed(2) [OF ret, of 0] by simp
  then have mem: "(''@alice.bsky.social'', ?F) \<in> set (agentFeeds ?T)"
    by (simp only: feed_entry_lookup [OF ret])
  from feed_is_corpus_window [OF ret mem ne] nl mem ne show ?thesis by (intro conjI)
qed

text \<open>
  Claim C2 as stated fails on the first sample run: the feed of \<open>@alice.bsky.social\<close> in
  turn 0 is the first three posts of the corpus, oldest first, and the first of them is
  her own.
\<close>


theorem chronological_feed_counterexample:
  "\<not> isl (createTurnForRun host0 ''run_2025-01-15T10:30:00'' 0 (take 3 DUMMY_AGENTS) DUMMY_POSTS) \<and>
   (''@alice.bsky.social'',
    projr (agentFeed host0 ''run_2025-01-15T10:30:00'' 0 (selectAgents 0 (take 3 DUMMY_AGENTS))
      DUMMY_POSTS (take 3 DUMMY_AGENTS ! 0) 0))
     \<in> set (agentFeeds (projr
              (createTurnForRun host0 ''run_2025-01-15T10:30:00'' 0 (take 3 DUMMY_AGENTS) DUMMY_POSTS))) \<and>
   feedPosts DUMMY_POSTS
     (projr (agentFeed host0 ''run_2025-01-15T10:30:00'' 0 (selectAgents 0 (take 3 DUMMY_AGENTS))
        DUMMY_POSTS (take 3 DUMMY_AGENTS ! 0) 0)) = [DUMMY_POSTS ! 0, DUMMY_POSTS ! 1, DUMMY_POSTS ! 2] \<and>
   \<not> newest_first (feedPosts DUMMY_POSTS
     (projr (agentFeed host0 ''run_2025-01-15T10:30:00'' 0 (selectAgents 0 (take 3 DUMMY_AGENTS))
        DUMMY_POSTS (take 3 DUMMY_AGENTS ! 0) 0))) \<and>
   \<not> no_own_posts
     (projr (agentFeed host0 ''run_2025-01-15T10:30:00'' 0 (selectAgents 0 (take 3 DUMMY_AGENTS))
        DUMMY_POSTS (take 3 DUMMY_AGENTS ! 0) 0))
     (feedPosts DUMMY_POSTS
       (projr (agentFeed host0 ''run_2025-01-15T10:30:00'' 0 (selectAgents 0 (take 3 DUMMY_AGENTS))
          DUMMY_POSTS (take 3 DUMMY_AGENTS ! 0) 0)))"
proof -
  let ?A = "take 3 DUMMY_AGENTS"
  let ?R = "''run_2025-01-15T10:30:00''"
  let ?T = "projr (createTurnForRun host0 ?R 0 ?A DUMMY_POSTS)"
  let ?F = "projr (agentFeed host0 ?R 0 (selectAgents 0 ?A) DUMMY_POSTS (?A ! 0) 0)"
  have nl: "\<not> isl (createTurnForRun host0 ?R 0 ?A DUMMY_POSTS)"
    by (rule host0_returns) simp
  then have ret: "createTurnForRun host0 ?R 0 ?A DUMMY_POSTS = Inr ?T" by (rule Inr_projr)
  have nlf: "\<not> isl (agentFeed host0 ?R 0 (selectAgents 0 ?A) DUMMY_POSTS (?A ! 0) 0)"
    using roster3_feed(1) [OF ret, of 0] by simp
  have "map_of (agentFeeds ?T) ''@alice.bsky.social'' = Some ?F"
    using roster3_feed(2) [OF ret, of 0] by simp
  then have mem: "(''@alice.bsky.social'', ?F) \<in> set (agentFeeds ?T)"
    by (simp only: feed_entry_lookup [OF ret])
  have d: "distinct (map uri DUMMY_POSTS)" unfolding dummy_uris by simp
  have look: "find (\<lambda>p. uri p = uri (DUMMY_POSTS ! j)) DUMMY_POSTS = Some (DUMMY_POSTS ! j)"
    if "j < 10" for j
    using d by (rule find_unique) (simp add: that length_DUMMY_POSTS)
  have nonempty: "uri (DUMMY_POSTS ! j) \<noteq> []" if "j < 10" for j
  proof -
    have "uri (DUMMY_POSTS ! j) \<in> set (map uri DUMMY_POSTS)"
      using that by (simp add: length_DUMMY_POSTS)
    then show ?thesis unfolding dummy_uris by auto
  qed
  have uris: "postUris ?F = [uri (DUMMY_POSTS ! 0), uri (DUMMY_POSTS ! 1), uri (DUMMY_POSTS ! 2)]"
    unfolding postUris_agentFeed [OF nlf] by (simp add: roster3_window nonempty)
  have posts: "feedPosts DUMMY_POSTS ?F = [DUMMY_POSTS ! 0, DUMMY_POSTS ! 1, DUMMY_POSTS ! 2]"
    unfolding feedPosts_def uris List.map_filter_simps by (simp add: look)
  have owner: "Feed.agentHandle ?F = ''@alice.bsky.social''"
    unfolding agentHandle_agentFeed [OF nlf] using roster3_handle_nth [of 0] by simp
  have unsorted: "\<not> newest_first (feedPosts DUMMY_POSTS ?F)"
    unfolding posts newest_first_def by (simp add: dummy_createdAt_nth)
  have own: "\<not> no_own_posts ?F (feedPosts DUMMY_POSTS ?F)"
    unfolding posts no_own_posts_def owner by (simp add: dummy_author_nth)
  from nl mem posts unsorted own show ?thesis by (intro conjI)
qed

text \<open>
  Claim C4, as the code has it. Within one returned turn the actions recorded for a handle contain
  at most one follow. Nothing is carried from one turn to the next.
\<close>


theorem at_most_one_follow_per_turn:
  assumes "createTurnForRun h r t agents ps = Inr turn"
    and "(k, acts) \<in> set (agentActions turn)"
  shows "length (filter (\<lambda>a. type a = Follow) acts) \<le> 1"
proof -
  from assms(2) have "map_of (agentActions turn) k = Some acts"
    by (simp only: actions_entry_lookup [OF assms(1)])
  from actions_lookup [OF assms(1) this] obtain i a where
    "agentActionList h r t (selectAgents t agents) ps a i = Inr acts"
    by blast
  then show ?thesis by (rule follow_count_actionList)
qed

theorem at_most_one_follow_per_turn_witness:
  "\<not> isl (createTurnForRun host0 ''run_2025-01-15T10:30:00'' 3 (take 3 DUMMY_AGENTS) DUMMY_POSTS) \<and>
   (''@alice.bsky.social'',
    projr (agentActionList host0 ''run_2025-01-15T10:30:00'' 3 (selectAgents 3 (take 3 DUMMY_AGENTS))
      DUMMY_POSTS (take 3 DUMMY_AGENTS ! 0) 0))
     \<in> set (agentActions (projr
              (createTurnForRun host0 ''run_2025-01-15T10:30:00'' 3 (take 3 DUMMY_AGENTS) DUMMY_POSTS))) \<and>
   length (filter (\<lambda>a. type a = Follow)
     (projr (agentActionList host0 ''run_2025-01-15T10:30:00'' 3 (selectAgents 3 (take 3 DUMMY_AGENTS))
        DUMMY_POSTS (take 3 DUMMY_AGENTS ! 0) 0))) \<le> 1"
proof -
  let ?A = "take 3 DUMMY_AGENTS"
  let ?R = "''run_2025-01-15T10:30:00''"
  let ?T = "projr (createTurnForRun host0 ?R 3 ?A DUMMY_POSTS)"
  let ?acts = "projr (agentActionList host0 ?R 3 (selectAgents 3 ?A) DUMMY_POSTS (?A ! 0) 0)"
  have nl: "\<not> isl (createTurnForRun host0 ?R 3 ?A DUMMY_POSTS)"
    by (rule host0_returns) simp
  then have ret: "createTurnForRun host0 ?R 3 ?A DUMMY_POSTS = Inr ?T" by (rule Inr_projr)
  have "map_of (agentActions ?T) ''@alice.bsky.social'' = Some ?acts"
    using roster3_actions(2) [OF ret, of 0] by simp
  then have mem: "(''@alice.bsky.social'', ?acts) \<in> set (agentActions ?T)"
    by (simp only: actions_entry_lookup [OF ret])
  from at_most_one_follow_per_turn [OF ret mem] nl mem show ?thesis by (intro conjI)
qed

text \<open>
  Claim C4 as stated fails on the first sample run: over turns 0 to 3 with the first three
  sample agents, \<open>@alice.bsky.social\<close> is recorded following \<open>@bob.tech\<close> twice, in
  turns 0 and 3.
\<close>


theorem repeated_follow_counterexample:
  "\<not> isl (runTurns host0 ''run_2025-01-15T10:30:00'' 4 (take 3 DUMMY_AGENTS) DUMMY_POSTS) \<and>
   length (followsOf (projr (runTurns host0 ''run_2025-01-15T10:30:00'' 4 (take 3 DUMMY_AGENTS) DUMMY_POSTS))
      ''@alice.bsky.social'' ''@bob.tech'') = 2 \<and>
   \<not> length (followsOf (projr (runTurns host0 ''run_2025-01-15T10:30:00'' 4 (take 3 DUMMY_AGENTS) DUMMY_POSTS))
      ''@alice.bsky.social'' ''@bob.tech'') \<le> 1"
proof -
  let ?A = "take 3 DUMMY_AGENTS"
  let ?R = "''run_2025-01-15T10:30:00''"
  let ?C = "\<lambda>t. createTurnForRun host0 ?R t ?A DUMMY_POSTS"
  let ?T = "\<lambda>t. projr (?C t)"
  let ?L = "\<lambda>t j i. projr (agentActionList host0 ?R t (selectAgents t ?A) DUMMY_POSTS (?A ! j) i)"
  have nl0: "\<not> isl (?C 0)" by (rule host0_returns) simp
  have nl1: "\<not> isl (?C 1)" by (rule host0_returns) simp
  have nl2: "\<not> isl (?C 2)" by (rule host0_returns) simp
  have nl3: "\<not> isl (?C 3)" by (rule host0_returns) simp
  note ret0 = Inr_projr [OF nl0] and ret1 = Inr_projr [OF nl1]
    and ret2 = Inr_projr [OF nl2] and ret3 = Inr_projr [OF nl3]
  have "runTurns host0 ?R 4 ?A DUMMY_POSTS = sequence_error [?C 0, ?C 1, ?C 2, ?C 3]"
    by (simp add: runTurns_def upt4)
  also have "\<dots> = Inr (map projr [?C 0, ?C 1, ?C 2, ?C 3])"
    by (rule sequence_returns) (use nl0 nl1 nl2 nl3 in auto)
  finally have r: "runTurns host0 ?R 4 ?A DUMMY_POSTS = Inr [?T 0, ?T 1, ?T 2, ?T 3]"
    by simp
  then have nl: "\<not> isl (runTurns host0 ?R 4 ?A DUMMY_POSTS)" by simp
  have a0: "map_of (agentActions (?T 0)) ''@alice.bsky.social'' = Some (?L 0 0 0)"
    and b0: "\<not> isl (agentActionList host0 ?R 0 (selectAgents 0 ?A) DUMMY_POSTS (?A ! 0) 0)"
    using roster3_actions [OF ret0, of 0] by simp_all
  have a1: "map_of (agentActions (?T 1)) ''@alice.bsky.social'' = Some (?L 1 0 2)"
    and b1: "\<not> isl (agentActionList host0 ?R 1 (selectAgents 1 ?A) DUMMY_POSTS (?A ! 0) 2)"
    using roster3_actions [OF ret1, of 2] by simp_all
  have a2: "map_of (agentActions (?T 2)) ''@alice.bsky.social'' = Some (?L 2 0 1)"
    and b2: "\<not> isl (agentActionList host0 ?R 2 (selectAgents 2 ?A) DUMMY_POSTS (?A ! 0) 1)"
    using roster3_actions [OF ret2, of 1] by simp_all
  have a3: "map_of (agentActions (?T 3)) ''@alice.bsky.social'' = Some (?L 3 0 0)"
    and b3: "\<not> isl (agentActionList host0 ?R 3 (selectAgents 3 ?A) DUMMY_POSTS (?A ! 0) 0)"
    using roster3_actions [OF ret3, of 0] by simp_all
  have target: "handle (selectAgents t ?A ! 1) =
      [''@alice.bsky.social'', ''@bob.tech'', ''@charlie.dev''] ! ((t + 1) mod 3)" for t
  proof -
    have "selectAgents t ?A ! 1 = ?A ! ((t + 1) mod length ?A)"
      by (rule nth_selectAgents) (simp add: length_DUMMY_AGENTS)
    moreover have "(t + 1) mod 3 < 3" by simp
    ultimately show ?thesis by (simp only: roster3_length roster3_handle_nth)
  qed
  have cnt: "length (filter (\<lambda>a. type a = Follow \<and> userId a = Some x) (?L t j i)) =
      (if t mod 3 = 0 \<and> i = 0 \<and>
          [''@alice.bsky.social'', ''@bob.tech'', ''@charlie.dev''] ! ((t + 1) mod 3) = x
       then 1 else 0)"
    if "\<not> isl (agentActionList host0 ?R t (selectAgents t ?A) DUMMY_POSTS (?A ! j) i)" for t j i x
    unfolding follows_in_actionList [OF Inr_projr [OF that]] length_selectAgents roster3_length target
    by simp
  have c0: "length (filter (\<lambda>a. type a = Follow \<and> userId a = Some ''@bob.tech'') (?L 0 0 0)) = 1"
    unfolding cnt [OF b0] by simp
  have c1: "length (filter (\<lambda>a. type a = Follow \<and> userId a = Some ''@bob.tech'') (?L 1 0 2)) = 0"
    unfolding cnt [OF b1] by simp
  have c2: "length (filter (\<lambda>a. type a = Follow \<and> userId a = Some ''@bob.tech'') (?L 2 0 1)) = 0"
    unfolding cnt [OF b2] by simp
  have c3: "length (filter (\<lambda>a. type a = Follow \<and> userId a = Some ''@bob.tech'') (?L 3 0 0)) = 1"
    unfolding cnt [OF b3] by simp
  have "followsOf (projr (runTurns host0 ?R 4 ?A DUMMY_POSTS)) ''@alice.bsky.social'' ''@bob.tech'' =
      filter (\<lambda>a. type a = Follow \<and> userId a = Some ''@bob.tech'')
        (concat [?L 0 0 0, ?L 1 0 2, ?L 2 0 1, ?L 3 0 0])"
    unfolding followsOf_def r sum.sel List.map_filter_simps a0 a1 a2 a3 option.case ..
  also have "length \<dots> = 2"
    unfolding concat.simps filter_append length_append c0 c1 c2 c3 by simp
  finally have two: "length (followsOf (projr (runTurns host0 ?R 4 ?A DUMMY_POSTS))
      ''@alice.bsky.social'' ''@bob.tech'') = 2" .
  then have "\<not> length (followsOf (projr (runTurns host0 ?R 4 ?A DUMMY_POSTS))
      ''@alice.bsky.social'' ''@bob.tech'') \<le> 1" by simp
  with nl two show ?thesis by (intro conjI)
qed

section \<open>Run status and run configuration\<close>

lemma digit_value:
  assumes "d < 10"
  shows "of_char (''0123456789'' ! d) = 48 + d"
proof -
  from assms consider "d = 0" | "d = 1" | "d = 2" | "d = 3" | "d = 4"
    | "d = 5" | "d = 6" | "d = 7" | "d = 8" | "d = 9"
    by atomize_elim arith
  then show ?thesis by cases simp_all
qed

lemma decode_string_of_nat:
  "foldl (\<lambda>n c. 10 * n + (of_char c - 48)) 0 (string_of_nat n) = n"
proof (induction n rule: string_of_nat.induct)
  case (1 n)
  show ?case
  proof (cases "n < 10")
    case True
    then show ?thesis by (simp add: string_of_nat.simps [of n] digit_value)
  next
    case False
    have d: "n mod 10 < 10" by simp
    from False "1.IH" show ?thesis
      by (simp add: string_of_nat.simps [of n] digit_value [OF d])
  qed
qed

lemma inj_string_of_nat: "inj string_of_nat"
  by (rule inj_on_inverseI [where g = "foldl (\<lambda>n c. 10 * n + (of_char c - 48)) 0"])
     (rule decode_string_of_nat)

lemma recorded_turn_iff: "string_of_nat m \<in> string_of_nat ` {0..<k} \<longleftrightarrow> m < k"
  using inj_string_of_nat by (auto simp: inj_image_mem_iff)

lemma count_recorded_turns:
  assumes "distinct keys" and "set keys = string_of_nat ` {0..<k}"
  shows "length keys = k"
proof -
  have "length keys = card (set keys)" using assms(1) by (simp add: distinct_card)
  also have "\<dots> = card (string_of_nat ` {0..<k})" by (simp only: assms(2))
  also have "\<dots> = card {0..<k}"
    by (rule card_image) (rule inj_on_subset [OF inj_string_of_nat subset_UNIV])
  finally show ?thesis by simp
qed

lemma getCompletedTurnsCount_keys:
  "rid \<noteq> [] \<Longrightarrow>
     getCompletedTurnsCount h dummy_turns s (Some rid) = length (Object_keys (turnsOf dummy_turns s rid))"
  by (simp add: getCompletedTurnsCount_def getAvailableTurns_def Let_def)


lemma objectOf_keys: "objectOf kms = Inr obj \<Longrightarrow> Object_keys obj = map fst kms"
proof (induction kms arbitrary: obj)
  case Nil
  then show ?case by (simp add: Object_keys_def)
next
  case (Cons km kms)
  from Cons.prems obtain v kvs where "objectOf kms = Inr kvs" and "obj = (fst km, v) # kvs"
    by (auto simp: bind_error_eq_Inr)
  with Cons.IH [of kvs] show ?case by (simp add: Object_keys_def)
qed

lemma objectOf_returns:
  "list_all (\<lambda>km. \<not> isl (snd km)) kms \<Longrightarrow>
     objectOf kms = Inr (map (\<lambda>km. (fst km, projr (snd km))) kms)"
proof (induction kms)
  case Nil
  show ?case by simp
next
  case (Cons km kms)
  then obtain v where "snd km = Inr v" by (auto simp: not_isl_iff)
  with Cons show ?case by simp
qed

lemma objectOf_loads: "list_all (\<lambda>km. \<not> isl (snd km)) kms \<Longrightarrow> \<not> isl (objectOf kms)"
  by (simp add: objectOf_returns)

lemma sample_turn_returns:
  "t \<le> 19 \<Longrightarrow> \<not> isl (createTurnForRun host0 r t agents ps)"
  by (rule host0_returns) simp

text \<open>
  With the sample host the module loads, and the loaded table holds, for each sample run,
  the turns \<open>0, \<dots>, k - 1\<close> under their decimal keys (lemma \<open>sample_keys\<close> below).
\<close>

lemma dummy_loads: "\<not> isl (DUMMY_TURNS host0)"
  unfolding DUMMY_TURNS_def
  by (intro objectOf_loads) (simp add: objectOf_loads sample_turn_returns del: objectOf.simps)


lemma sample_keys:
  "Object_keys (turnsOf (projr (DUMMY_TURNS host0)) (initial_page (projr (DUMMY_TURNS host0)))
      ''run_2025-01-15T10:30:00'') = map string_of_nat [0..<10]"
  "Object_keys (turnsOf (projr (DUMMY_TURNS host0)) (initial_page (projr (DUMMY_TURNS host0)))
      ''run_2025-01-15T14:45:00'') = map string_of_nat [0..<3]"
  "Object_keys (turnsOf (projr (DUMMY_TURNS host0)) (initial_page (projr (DUMMY_TURNS host0)))
      ''run_2025-01-16T09:15:00'') = map string_of_nat [0..<5]"
  "Object_keys (turnsOf (projr (DUMMY_TURNS host0)) (initial_page (projr (DUMMY_TURNS host0)))
      ''run_2025-01-17T08:20:00'') = map string_of_nat [0..<8]"
  "Object_keys (turnsOf (projr (DUMMY_TURNS host0)) (initial_page (projr (DUMMY_TURNS host0)))
      ''run_2025-01-18T11:00:00'') = map string_of_nat [0..<5]"
  unfolding turnsOf_def initial_page_def DUMMY_TURNS_def
  by (simp_all add: objectOf_returns sample_turn_returns Object_keys_def comp_def
        upt_rec string_of_nat.simps del: objectOf.simps)

lemma dummy_run_ids:
  "map Run.runId DUMMY_RUNS =
     [''run_2025-01-15T10:30:00'', ''run_2025-01-15T14:45:00'', ''run_2025-01-16T09:15:00'',
      ''run_2025-01-17T08:20:00'', ''run_2025-01-18T11:00:00'']"
  by (simp add: DUMMY_RUNS_def)

lemma dummy_run_turns: "map totalTurns DUMMY_RUNS = [10, 10, 5, 15, 20]"
  by (simp add: DUMMY_RUNS_def)

lemma dummy_run_agents: "map totalAgents DUMMY_RUNS = [3, 4, 3, 4, 4]"
  by (simp add: DUMMY_RUNS_def)

text \<open>
  Claim C6. Take a run with a non-empty id whose turn table holds the turns \<open>0, \<dots>, k - 1\<close>
  under their decimal keys, as every table of the sample data does. Then \<open>k\<close> is the number
  of recorded turns, the computed status is \<open>completed\<close> exactly when \<open>k\<close> is at least
  \<open>totalTurns\<close> and \<open>running\<close> exactly when it is smaller, and for a run of \<open>n \<ge> 1\<close> turns the
  status is \<open>completed\<close> exactly when turn \<open>n - 1\<close> is among the recorded ones.
\<close>

theorem getRunStatus_completed_iff:
  assumes "Run.runId r \<noteq> []"
    and "distinct (Object_keys (turnsOf dummy_turns s (Run.runId r)))"
    and "set (Object_keys (turnsOf dummy_turns s (Run.runId r))) = string_of_nat ` {0..<k}"
  shows "getCompletedTurnsCount h dummy_turns s (Some (Run.runId r)) = k \<and>
         (getRunStatus h dummy_turns s (Some r) = Completed \<longleftrightarrow> totalTurns r \<le> real k) \<and>
         (getRunStatus h dummy_turns s (Some r) = Running \<longleftrightarrow> real k < totalTurns r) \<and>
         (\<forall>n. 0 < n \<and> totalTurns r = real n \<longrightarrow>
            (getRunStatus h dummy_turns s (Some r) = Completed \<longleftrightarrow>
               string_of_nat (n - 1) \<in> set (Object_keys (turnsOf dummy_turns s (Run.runId r)))))"
proof -
  have count: "getCompletedTurnsCount h dummy_turns s (Some (Run.runId r)) = k"
    unfolding getCompletedTurnsCount_keys [OF assms(1)]
    using assms(2) assms(3) by (rule count_recorded_turns)
  have completed: "getRunStatus h dummy_turns s (Some r) = Completed \<longleftrightarrow> totalTurns r \<le> real k"
    by (simp add: getRunStatus_def Let_def count)
  have running: "getRunStatus h dummy_turns s (Some r) = Running \<longleftrightarrow> real k < totalTurns r"
    by (simp add: getRunStatus_def Let_def count not_le)
  have last: "getRunStatus h dummy_turns s (Some r) = Completed \<longleftrightarrow>
      string_of_nat (n - 1) \<in> set (Object_keys (turnsOf dummy_turns s (Run.runId r)))"
    if "0 < n \<and> totalTurns r = real n" for n
  proof -
    from that have "totalTurns r \<le> real k \<longleftrightarrow> n - 1 < k" by auto
    then show ?thesis unfolding completed assms(3) recorded_turn_iff .
  qed
  from count completed running last show ?thesis by blast
qed

theorem getRunStatus_completed_iff_witness:
  "\<not> isl (DUMMY_TURNS host0) \<and>
   Run.runId (DUMMY_RUNS ! 2) \<noteq> [] \<and>
   distinct (Object_keys (turnsOf (projr (DUMMY_TURNS host0))
      (initial_page (projr (DUMMY_TURNS host0))) (Run.runId (DUMMY_RUNS ! 2)))) \<and>
   set (Object_keys (turnsOf (projr (DUMMY_TURNS host0))
      (initial_page (projr (DUMMY_TURNS host0))) (Run.runId (DUMMY_RUNS ! 2)))) =
     string_of_nat ` {0..<5} \<and>
   totalTurns (DUMMY_RUNS ! 2) = real 5 \<and>
   getCompletedTurnsCount host0 (projr (DUMMY_TURNS host0))
      (initial_page (projr (DUMMY_TURNS host0))) (Some (Run.runId (DUMMY_RUNS ! 2))) = 5 \<and>
   getRunStatus host0 (projr (DUMMY_TURNS host0))
      (initial_page (projr (DUMMY_TURNS host0))) (Some (DUMMY_RUNS ! 2)) = Completed \<and>
   string_of_nat (5 - 1) \<in> set (Object_keys (turnsOf (projr (DUMMY_TURNS host0))
      (initial_page (projr (DUMMY_TURNS host0))) (Run.runId (DUMMY_RUNS ! 2)))) \<and>
   Run.runId (DUMMY_RUNS ! 3) \<noteq> [] \<and>
   set (Object_keys (turnsOf (projr (DUMMY_TURNS host0))
      (initial_page (projr (DUMMY_TURNS host0))) (Run.runId (DUMMY_RUNS ! 3)))) =
     string_of_nat ` {0..<8} \<and>
   totalTurns (DUMMY_RUNS ! 3) = real 15 \<and>
   getRunStatus host0 (projr (DUMMY_TURNS host0))
      (initial_page (projr (DUMMY_TURNS host0))) (Some (DUMMY_RUNS ! 3)) = Running \<and>
   string_of_nat (15 - 1) \<notin> set (Object_keys (turnsOf (projr (DUMMY_TURNS host0))
      (initial_page (projr (DUMMY_TURNS host0))) (Run.runId (DUMMY_RUNS ! 3))))"
proof -
  let ?D = "projr (DUMMY_TURNS host0)"
  let ?s = "initial_page ?D"
  let ?K = "\<lambda>r. Object_keys (turnsOf ?D ?s (Run.runId r))"
  have len: "length DUMMY_RUNS = 5"
    using arg_cong [OF dummy_run_ids, of length] by simp
  have id2: "Run.runId (DUMMY_RUNS ! 2) = ''run_2025-01-16T09:15:00''"
    using arg_cong [OF dummy_run_ids, of "\<lambda>xs. xs ! 2"] by (simp add: len)
  have id3: "Run.runId (DUMMY_RUNS ! 3) = ''run_2025-01-17T08:20:00''"
    using arg_cong [OF dummy_run_ids, of "\<lambda>xs. xs ! 3"] by (simp add: len)
  have tt2: "totalTurns (DUMMY_RUNS ! 2) = real 5"
    using arg_cong [OF dummy_run_turns, of "\<lambda>xs. xs ! 2"] by (simp add: len)
  have tt3: "totalTurns (DUMMY_RUNS ! 3) = real 15"
    using arg_cong [OF dummy_run_turns, of "\<lambda>xs. xs ! 3"] by (simp add: len)
  have ne2: "Run.runId (DUMMY_RUNS ! 2) \<noteq> []" unfolding id2 by simp
  have ne3: "Run.runId (DUMMY_RUNS ! 3) \<noteq> []" unfolding id3 by simp
  have k2: "?K (DUMMY_RUNS ! 2) = map string_of_nat [0..<5]"
    unfolding id2 by (rule sample_keys)
  have k3: "?K (DUMMY_RUNS ! 3) = map string_of_nat [0..<8]"
    unfolding id3 by (rule sample_keys)
  have d2: "distinct (?K (DUMMY_RUNS ! 2))"
    unfolding k2 by (simp add: distinct_map inj_on_subset [OF inj_string_of_nat])
  have d3: "distinct (?K (DUMMY_RUNS ! 3))"
    unfolding k3 by (simp add: distinct_map inj_on_subset [OF inj_string_of_nat])
  have s2: "set (?K (DUMMY_RUNS ! 2)) = string_of_nat ` {0..<5}"
    unfolding k2 by simp
  have s3: "set (?K (DUMMY_RUNS ! 3)) = string_of_nat ` {0..<8}"
    unfolding k3 by simp
  note t2 = getRunStatus_completed_iff [OF ne2 d2 s2, of host0]
  note t3 = getRunStatus_completed_iff [OF ne3 d3 s3, of host0]
  have c2: "getCompletedTurnsCount host0 ?D ?s (Some (Run.runId (DUMMY_RUNS ! 2))) = 5"
    using t2 by blast
  have st2: "getRunStatus host0 ?D ?s (Some (DUMMY_RUNS ! 2)) = Completed"
    using t2 tt2 by simp
  have "0 < (5::nat) \<and> totalTurns (DUMMY_RUNS ! 2) = real 5" using tt2 by simp
  with t2 st2 have last2: "string_of_nat (5 - 1) \<in> set (?K (DUMMY_RUNS ! 2))" by blast
  have st3: "getRunStatus host0 ?D ?s (Some (DUMMY_RUNS ! 3)) = Running"
    using t3 tt3 by simp
  have "0 < (15::nat) \<and> totalTurns (DUMMY_RUNS ! 3) = real 15" using tt3 by simp
  with t3 st3 have last3: "string_of_nat (15 - 1) \<notin> set (?K (DUMMY_RUNS ! 3))" by auto
  from dummy_loads ne2 d2 s2 tt2 c2 st2 last2 ne3 s3 tt3 st3 last3
  show ?thesis by (intro conjI)
qed

lemma dummy_runs_positive:
  assumes "run \<in> set DUMMY_RUNS"
  shows "1 \<le> totalAgents run \<and> 1 \<le> totalTurns run"
proof -
  from assms have "totalAgents run \<in> set (map totalAgents DUMMY_RUNS)"
    and "totalTurns run \<in> set (map totalTurns DUMMY_RUNS)" by simp_all
  then show ?thesis unfolding dummy_run_agents dummy_run_turns by auto
qed

lemma initial_app_positive:
  "(\<forall>r \<in> set (runs (page (initial_app dummy_turns))). 1 \<le> totalAgents r \<and> 1 \<le> totalTurns r) \<and>
   (\<forall>st. form (initial_app dummy_turns) = Some st \<longrightarrow> 1 \<le> numAgents st \<and> 1 \<le> numTurns st)"
  using dummy_runs_positive
  by (auto simp: initial_app_def render_def initial_page_def initial_runs_def
        ConfigForm_init_def DEFAULT_CONFIG_def)

lemma step_positive:
  assumes "\<forall>r \<in> set (runs (page a)). 1 \<le> totalAgents r \<and> 1 \<le> totalTurns r"
    and "\<forall>st. form a = Some st \<longrightarrow> 1 \<le> numAgents st \<and> 1 \<le> numTurns st"
  shows "(\<forall>r \<in> set (runs (page (step h a e))). 1 \<le> totalAgents r \<and> 1 \<le> totalTurns r) \<and>
   (\<forall>st. form (step h a e) = Some st \<longrightarrow> 1 \<le> numAgents st \<and> 1 \<le> numTurns st)"
proof (cases e)
  case (ChangeNumAgents v)
  with assms show ?thesis
    by (auto simp: onChange_numAgents_def split: option.splits jsnum.splits)
next
  case (ChangeNumTurns v)
  with assms show ?thesis
    by (auto simp: onChange_numTurns_def split: option.splits jsnum.splits)
next
  case (SubmitForm now)
  with assms show ?thesis
    by (auto simp: render_def handleConfigSubmit_def handleSubmit_def Let_def
          split: option.splits)
next
  case (SelectRun rid)
  with assms show ?thesis
    by (auto simp: render_def handleSelectRun_def)
next
  case (SelectTurn sel)
  with assms show ?thesis
    by (auto simp: render_def handleSelectTurn_def)
next
  case StartNewRun
  with assms show ?thesis
    by (auto simp: render_def handleStartNewRun_def ConfigForm_init_def DEFAULT_CONFIG_def
          split: option.splits)
qed

lemma reachable_positive:
  "(\<forall>r \<in> set (runs (page (foldl (step h) (initial_app dummy_turns) es))).
      1 \<le> totalAgents r \<and> 1 \<le> totalTurns r) \<and>
   (\<forall>st. form (foldl (step h) (initial_app dummy_turns) es) = Some st \<longrightarrow>
      1 \<le> numAgents st \<and> 1 \<le> numTurns st)"
proof (induction es rule: rev_induct)
  case Nil
  show ?case using initial_app_positive [of dummy_turns] by simp
next
  case (snoc e es)
  from step_positive [OF conjunct1 [OF snoc] conjunct2 [OF snoc], of h e]
  show ?case by simp
qed

text \<open>
  Claim C7. Whatever the user does, starting from the initial page over the loaded turn
  table, every run in the run list has at least one agent and at least one turn, and every
  configuration that the form submits has \<open>numAgents \<ge> 1\<close> and \<open>numTurns \<ge> 1\<close>: the change
  handlers replace a zero, negative or non-numeric entry by 1, so such a value cannot be
  submitted.
\<close>

theorem no_run_with_zero_agents_or_turns:
  "(\<forall>r \<in> set (runs (page (foldl (step h) (initial_app dummy_turns) es))).
      1 \<le> totalAgents r \<and> 1 \<le> totalTurns r) \<and>
   (\<forall>e c. submitted (foldl (step h) (initial_app dummy_turns) es) e = Some c \<longrightarrow>
      1 \<le> numAgents c \<and> 1 \<le> numTurns c)"
proof (intro conjI allI impI)
  fix e c
  assume sub: "submitted (foldl (step h) (initial_app dummy_turns) es) e = Some c"
  then obtain st where st: "form (foldl (step h) (initial_app dummy_turns) es) = Some st"
    and c: "c = handleSubmit st"
    by (cases e) auto
  from reachable_positive [of h dummy_turns es] st have "1 \<le> numAgents st \<and> 1 \<le> numTurns st" by blast
  then show "1 \<le> numAgents c" and "1 \<le> numTurns c"
    by (simp_all add: c handleSubmit_def)
next
  show "\<forall>r \<in> set (runs (page (foldl (step h) (initial_app dummy_turns) es))).
      1 \<le> totalAgents r \<and> 1 \<le> totalTurns r"
    using reachable_positive [of h dummy_turns es] by blast
qed

theorem no_run_with_zero_agents_or_turns_witness:
  "\<not> isl (DUMMY_TURNS host0) \<and>
   submitted (foldl (step host0) (initial_app (projr (DUMMY_TURNS host0))) [ChangeNumAgents (Num 0), ChangeNumTurns NaN])
     (SubmitForm 0) = Some \<lparr>numAgents = 1, numTurns = 1\<rparr> \<and>
   1 \<le> numAgents \<lparr>numAgents = 1, numTurns = 1\<rparr> \<and> 1 \<le> numTurns \<lparr>numAgents = 1, numTurns = 1\<rparr> \<and>
   hd (runs (page (foldl (step host0) (initial_app (projr (DUMMY_TURNS host0)))
         [ChangeNumAgents (Num 0), ChangeNumTurns NaN, SubmitForm 0])))
     \<in> set (runs (page (foldl (step host0) (initial_app (projr (DUMMY_TURNS host0)))
         [ChangeNumAgents (Num 0), ChangeNumTurns NaN, SubmitForm 0]))) \<and>
   totalAgents (hd (runs (page (foldl (step host0) (initial_app (projr (DUMMY_TURNS host0)))
         [ChangeNumAgents (Num 0), ChangeNumTurns NaN, SubmitForm 0])))) = 1 \<and>
   totalTurns (hd (runs (page (foldl (step host0) (initial_app (projr (DUMMY_TURNS host0)))
         [ChangeNumAgents (Num 0), ChangeNumTurns NaN, SubmitForm 0])))) = 1 \<and>
   1 \<le> totalAgents (hd (runs (page (foldl (step host0) (initial_app (projr (DUMMY_TURNS host0)))
         [ChangeNumAgents (Num 0), ChangeNumTurns NaN, SubmitForm 0])))) \<and>
   1 \<le> totalTurns (hd (runs (page (foldl (step host0) (initial_app (projr (DUMMY_TURNS host0)))
         [ChangeNumAgents (Num 0), ChangeNumTurns NaN, SubmitForm 0]))))"
proof -
  let ?es2 = "[ChangeNumAgents (Num 0), ChangeNumTurns NaN]"
  let ?es3 = "[ChangeNumAgents (Num 0), ChangeNumTurns NaN, SubmitForm 0]"
  let ?a2 = "foldl (step host0) (initial_app (projr (DUMMY_TURNS host0))) ?es2"
  let ?a3 = "foldl (step host0) (initial_app (projr (DUMMY_TURNS host0))) ?es3"
  have a0: "initial_app (projr (DUMMY_TURNS host0)) =
      \<lparr>page = initial_page (projr (DUMMY_TURNS host0)), form = Some \<lparr>numAgents = 5, numTurns = 10\<rparr>\<rparr>"
    by (simp add: initial_app_def render_def initial_page_def ConfigForm_init_def DEFAULT_CONFIG_def)
  have a2: "?a2 = \<lparr>page = initial_page (projr (DUMMY_TURNS host0)), form = Some \<lparr>numAgents = 1, numTurns = 1\<rparr>\<rparr>"
    unfolding a0 by (simp add: onChange_numAgents_def onChange_numTurns_def)
  have a3: "?a3 = step host0 ?a2 (SubmitForm 0)"
    by simp
  have sub: "submitted ?a2 (SubmitForm 0) = Some \<lparr>numAgents = 1, numTurns = 1\<rparr>"
    unfolding a2 by (simp add: handleSubmit_def)
  have r3: "runs (page ?a3) =
      \<lparr>Run.runId = ''run_'' @ toISOString host0 0, Run.createdAt = toISOString host0 0,
        totalTurns = 1, totalAgents = 1, status = Running\<rparr> # runs (initial_page (projr (DUMMY_TURNS host0)))"
    unfolding a3 a2 by (simp add: render_def handleConfigSubmit_def handleSubmit_def Let_def)
  have mem: "hd (runs (page ?a3)) \<in> set (runs (page ?a3))"
    unfolding r3 by simp
  have ta: "totalAgents (hd (runs (page ?a3))) = 1" and tt: "totalTurns (hd (runs (page ?a3))) = 1"
    unfolding r3 by simp_all
  from no_run_with_zero_agents_or_turns [of host0 "projr (DUMMY_TURNS host0)" ?es2] sub
  have "1 \<le> numAgents \<lparr>numAgents = 1, numTurns = 1\<rparr> \<and> 1 \<le> numTurns \<lparr>numAgents = 1, numTurns = 1\<rparr>"
    by blast
  moreover from no_run_with_zero_agents_or_turns [of host0 "projr (DUMMY_TURNS host0)" ?es3] mem
  have "1 \<le> totalAgents (hd (runs (page ?a3))) \<and> 1 \<le> totalTurns (hd (runs (page ?a3)))"
    by blast
  ultimately show ?thesis using dummy_loads sub mem ta tt by (intro conjI) blast+
qed

end
